theory Spec2Isabelle
  imports Main
begin

section \<open>Values decoded from YAML, as the plugin sees them\<close>

text \<open>
  \<^verbatim>\<open>jsyaml.load\<close> hands the plugin a JavaScript value. The model keeps the values
  of the YAML core: null, booleans, numbers, strings, sequences (arrays) and mappings
  (objects). A mapping is the list of its own properties in enumeration order, with
  distinct keys. A string is the list of its bytes in UTF-8. Numbers are the integers
  that JavaScript holds exactly and prints in decimal; fractions, NaN, the infinities,
  dates and values that contain themselves (through YAML anchors) are outside the
  model. A JavaScript expression that may also be \<^verbatim>\<open>undefined\<close> has the type
  \<open>yval option\<close>, with \<open>None\<close> for \<^verbatim>\<open>undefined\<close>.
\<close>

datatype yval =
    YNull
  | YBool bool
  | YNum int
  | YStr string
  | YSeq "yval list"
  | YMap "(string \<times> yval) list"

text \<open>The one exception the program can run into on such values.\<close>

datatype js_error = TypeError

type_synonym jsv = "yval option"

subsection \<open>Truthiness, \<^verbatim>\<open>typeof\<close>, \<^verbatim>\<open>Array.isArray\<close>\<close>

fun truthy :: "jsv \<Rightarrow> bool" where
  "truthy None = False"
| "truthy (Some YNull) = False"
| "truthy (Some (YBool b)) = b"
| "truthy (Some (YNum n)) = (n \<noteq> 0)"
| "truthy (Some (YStr s)) = (s \<noteq> [])"
| "truthy (Some (YSeq xs)) = True"
| "truthy (Some (YMap kvs)) = True"

fun typeof :: "jsv \<Rightarrow> string" where
  "typeof None = ''undefined''"
| "typeof (Some YNull) = ''object''"
| "typeof (Some (YBool b)) = ''boolean''"
| "typeof (Some (YNum n)) = ''number''"
| "typeof (Some (YStr s)) = ''string''"
| "typeof (Some (YSeq xs)) = ''object''"
| "typeof (Some (YMap kvs)) = ''object''"

fun isArray :: "jsv \<Rightarrow> bool" where
  "isArray (Some (YSeq xs)) = True"
| "isArray v = False"

fun nullish :: "jsv \<Rightarrow> bool" where
  "nullish None = True"
| "nullish (Some YNull) = True"
| "nullish v = False"

subsection \<open>Property reads\<close>

text \<open>
  \<open>getprop v k\<close> is \<^verbatim>\<open>v.k\<close> on a value that is neither null nor undefined, for the
  property names the program reads (\<^verbatim>\<open>scenarios\<close>, \<^verbatim>\<open>id\<close>, \<^verbatim>\<open>name\<close>,
  \<^verbatim>\<open>triggers\<close>, \<^verbatim>\<open>steps\<close>, \<^verbatim>\<open>trigger\<close>, \<^verbatim>\<open>type\<close>, \<^verbatim>\<open>value\<close>,
  \<^verbatim>\<open>parameters\<close>, \<^verbatim>\<open>items\<close>, \<^verbatim>\<open>length\<close>): a mapping gives its own property,
  an array and a string have \<^verbatim>\<open>length\<close>, everything else gives \<^verbatim>\<open>undefined\<close>.
\<close>

fun getprop :: "yval \<Rightarrow> string \<Rightarrow> jsv" where
  "getprop (YMap kvs) k = map_of kvs k"
| "getprop (YSeq xs) k = (if k = ''length'' then Some (YNum (int (length xs))) else None)"
| "getprop (YStr s) k = (if k = ''length'' then Some (YNum (int (length s))) else None)"
| "getprop v k = None"

text \<open>\<^verbatim>\<open>v.k\<close>: a TypeError on null and undefined.\<close>

fun read_prop :: "jsv \<Rightarrow> string \<Rightarrow> js_error + jsv" where
  "read_prop None k = Inl TypeError"
| "read_prop (Some YNull) k = Inl TypeError"
| "read_prop (Some v) k = Inr (getprop v k)"

text \<open>\<^verbatim>\<open>v?.k\<close>: undefined on null and undefined.\<close>

fun opt_prop :: "jsv \<Rightarrow> string \<Rightarrow> jsv" where
  "opt_prop None k = None"
| "opt_prop (Some YNull) k = None"
| "opt_prop (Some v) k = getprop v k"

text \<open>
  \<^verbatim>\<open>'value' in v\<close>: a TypeError unless \<open>v\<close> is an object. An array has no property
  of that name, own or inherited.
\<close>

fun value_in :: "jsv \<Rightarrow> js_error + bool" where
  "value_in (Some (YMap kvs)) = Inr (''value'' \<in> set (map fst kvs))"
| "value_in (Some (YSeq xs)) = Inr False"
| "value_in v = Inl TypeError"

subsection \<open>Numbers in template literals\<close>

definition digit_char :: "nat \<Rightarrow> char" where
  "digit_char d = char_of (48 + d)"

function show_nat :: "nat \<Rightarrow> string" where
  "show_nat n = (if n < 10 then [digit_char n] else show_nat (n div 10) @ [digit_char (n mod 10)])"
  by pat_completeness auto
termination
  by (relation "measure id") auto

declare show_nat.simps [simp del]

definition show_int :: "int \<Rightarrow> string" where
  "show_int i = (if i < 0 then CHR ''-'' # show_nat (nat (- i)) else show_nat (nat i))"

subsection \<open>\<^verbatim>\<open>Array.prototype.forEach\<close> with a callback that pushes to an array\<close>

text \<open>
  The callback gets the element, its index and the array it pushes to; an exception in
  the callback ends the loop and is the result.
\<close>

fun forEach :: "('a \<Rightarrow> nat \<Rightarrow> 's \<Rightarrow> js_error + 's) \<Rightarrow> 'a list \<Rightarrow> nat \<Rightarrow> 's \<Rightarrow> js_error + 's" where
  "forEach f [] i acc = Inr acc"
| "forEach f (x # xs) i acc =
     (case f x i acc of Inl e \<Rightarrow> Inl e | Inr acc' \<Rightarrow> forEach f xs (Suc i) acc')"

fun join :: "string \<Rightarrow> string list \<Rightarrow> string" where
  "join sep [] = []"
| "join sep [x] = x"
| "join sep (x # y # ys) = x @ sep @ join sep (y # ys)"

section \<open>The validator (command \<^verbatim>\<open>validate-yaml-scenario\<close>, lines 131 to 152)\<close>

text \<open>
  \<^verbatim>\<open>(field, value, type) => !value || typeof value !== type ? `${field} invalid` : null\<close>
\<close>

definition checkField :: "string \<Rightarrow> jsv \<Rightarrow> string \<Rightarrow> string option" where
  "checkField field v ty =
     (if \<not> truthy v \<or> typeof v \<noteq> ty then Some (field @ '' invalid'') else None)"

text \<open>\<^verbatim>\<open>.filter(Boolean)\<close> on an array of strings and nulls.\<close>

fun filter_Boolean :: "string option list \<Rightarrow> string list" where
  "filter_Boolean [] = []"
| "filter_Boolean (None # xs) = filter_Boolean xs"
| "filter_Boolean (Some s # xs) = (if s = [] then filter_Boolean xs else s # filter_Boolean xs)"

text \<open>
  Line 143, the condition \<^verbatim>\<open>!t.trigger?.type || typeof t.trigger.type !== 'string'\<close>
  on the value \<open>tr\<close> of \<^verbatim>\<open>t.trigger\<close>: the second read happens only when the first
  gave a truthy value.
\<close>

definition type_invalid :: "jsv \<Rightarrow> js_error + bool" where
  "type_invalid tr =
     (if \<not> truthy (opt_prop tr ''type'') then Inr True
      else case read_prop tr ''type'' of
             Inl e \<Rightarrow> Inl e
           | Inr ty \<Rightarrow> Inr (typeof ty \<noteq> ''string''))"

text \<open>Lines 142 to 145: the callback of \<^verbatim>\<open>s.triggers.forEach\<close> in scenario \<open>i\<close>.\<close>

definition trigger_callback :: "nat \<Rightarrow> yval \<Rightarrow> nat \<Rightarrow> string list \<Rightarrow> js_error + string list" where
  "trigger_callback i t j errors =
     (case read_prop (Some t) ''trigger'' of
        Inl e \<Rightarrow> Inl e
      | Inr tr \<Rightarrow>
          (case type_invalid tr of
             Inl e \<Rightarrow> Inl e
           | Inr bad \<Rightarrow>
               (let errors1 =
                      (if bad
                       then errors @ [''Scenario '' @ show_nat i @ '', Trigger '' @ show_nat j @ '': type invalid'']
                       else errors)
                in case value_in tr of
                     Inl e \<Rightarrow> Inl e
                   | Inr present \<Rightarrow>
                       Inr (if \<not> present
                            then errors1 @ [''Scenario '' @ show_nat i @ '', Trigger '' @ show_nat j @ '': value missing'']
                            else errors1))))"

text \<open>
  Lines 147 to 149: the callback of \<^verbatim>\<open>s.steps.forEach\<close>, with the condition
  \<^verbatim>\<open>!st.type || !st.parameters?.items || !Array.isArray(st.parameters.items)\<close>.
\<close>

definition step_callback :: "nat \<Rightarrow> yval \<Rightarrow> nat \<Rightarrow> string list \<Rightarrow> js_error + string list" where
  "step_callback i st k errors =
     (case read_prop (Some st) ''type'' of
        Inl e \<Rightarrow> Inl e
      | Inr ty \<Rightarrow>
          (if \<not> truthy ty then Inr (errors @ [''Scenario '' @ show_nat i @ '', Step '' @ show_nat k @ '': invalid structure''])
           else case read_prop (Some st) ''parameters'' of
                  Inl e \<Rightarrow> Inl e
                | Inr ps \<Rightarrow>
                    Inr (if \<not> truthy (opt_prop ps ''items'') \<or> \<not> isArray (opt_prop ps ''items'')
                         then errors @ [''Scenario '' @ show_nat i @ '', Step '' @ show_nat k @ '': invalid structure'']
                         else errors)))"

text \<open>Lines 135 to 150: the callback of \<^verbatim>\<open>data.scenarios.forEach\<close>.\<close>

definition scenario_callback :: "yval \<Rightarrow> nat \<Rightarrow> string list \<Rightarrow> js_error + string list" where
  "scenario_callback s i errors =
     (case read_prop (Some s) ''id'' of
        Inl e \<Rightarrow> Inl e
      | Inr sid \<Rightarrow>
     (case read_prop (Some s) ''name'' of
        Inl e \<Rightarrow> Inl e
      | Inr sname \<Rightarrow>
     (let errors1 = errors @ filter_Boolean
            [checkField (''Scenario '' @ show_nat i @ '': id'') sid ''string'',
             checkField (''Scenario '' @ show_nat i @ '': name'') sname ''string'']
      in
     (case read_prop (Some s) ''triggers'' of
        Inl e \<Rightarrow> Inl e
      | Inr trs \<Rightarrow>
     (case (if \<not> truthy trs \<or> \<not> isArray trs
            then Inr (errors1 @ [''Scenario '' @ show_nat i @ '': triggers missing or not an array''])
            else (case trs of
                    Some (YSeq ts) \<Rightarrow> forEach (trigger_callback i) ts 0 errors1
                  | _ \<Rightarrow> Inl TypeError)) of
        Inl e \<Rightarrow> Inl e
      | Inr errors2 \<Rightarrow>
     (case read_prop (Some s) ''steps'' of
        Inl e \<Rightarrow> Inl e
      | Inr sts \<Rightarrow>
         (if \<not> truthy sts \<or> \<not> isArray sts
          then Inr (errors2 @ [''Scenario '' @ show_nat i @ '': steps missing or not an array''])
          else (case sts of
                  Some (YSeq ss) \<Rightarrow> forEach (step_callback i) ss 0 errors2
                | _ \<Rightarrow> Inl TypeError))))))))"

text \<open>
  Lines 132 to 150, on the decoded value \<open>data\<close>: the messages the command reports. The
  early return of line 133 shows the one message of its notice; otherwise the result is
  the array \<^verbatim>\<open>errors\<close>, which line 151 joins with newlines under the heading
  \<^verbatim>\<open>YAML validation failed:\<close> (an empty array gives the notice \<^verbatim>\<open>YAML is valid!\<close>).
  \<open>Inl TypeError\<close> is an exception inside the \<^verbatim>\<open>try\<close> block; line 153 catches it and
  the notice is \<^verbatim>\<open>YAML parsing error:\<close> followed by the exception's message.
\<close>

definition validate :: "jsv \<Rightarrow> js_error + string list" where
  \<open>validate data =
     (let sc = opt_prop data ''scenarios''
      in if \<not> truthy sc \<or> \<not> isArray sc
         then Inr [''Invalid YAML: "scenarios" missing or not an array.'']
         else (case sc of
                 Some (YSeq ss) \<Rightarrow> forEach scenario_callback ss 0 []
               | _ \<Rightarrow> Inl TypeError))\<close>

section \<open>Serialisation and string conversion\<close>

subsection \<open>\<^verbatim>\<open>JSON.stringify\<close>\<close>

definition hex_digit :: "nat \<Rightarrow> char" where
  "hex_digit d = (if d < 10 then char_of (48 + d) else char_of (87 + d))"

text \<open>
  One character of a quoted JSON string: the two-character escapes for backspace, tab,
  line feed, form feed, carriage return, the double quote and the backslash, the
  six-character escape for the other control characters, and the character itself
  otherwise.
\<close>

definition json_escape :: "char \<Rightarrow> string" where
  "json_escape c =
     (let n = (of_char c :: nat) in
      if n = 8 then [CHR 0x5C, CHR ''b'']
      else if n = 9 then [CHR 0x5C, CHR ''t'']
      else if n = 10 then [CHR 0x5C, CHR ''n'']
      else if n = 12 then [CHR 0x5C, CHR ''f'']
      else if n = 13 then [CHR 0x5C, CHR ''r'']
      else if n = 34 then [CHR 0x5C, CHR 0x22]
      else if n = 92 then [CHR 0x5C, CHR 0x5C]
      else if n < 32 then [CHR 0x5C, CHR ''u'', CHR ''0'', CHR ''0'', hex_digit (n div 16), hex_digit (n mod 16)]
      else [c])"

definition quote :: "string \<Rightarrow> string" where
  "quote s = CHR 0x22 # concat (map json_escape s) @ [CHR 0x22]"

text \<open>\<^verbatim>\<open>JSON.stringify\<close> of a value that is not \<^verbatim>\<open>undefined\<close>.\<close>

fun stringify :: "yval \<Rightarrow> string" where
  "stringify YNull = ''null''"
| "stringify (YBool b) = (if b then ''true'' else ''false'')"
| "stringify (YNum n) = show_int n"
| "stringify (YStr s) = quote s"
| "stringify (YSeq xs) = ''['' @ join '','' (map stringify xs) @ '']''"
| "stringify (YMap kvs) =
     ''{'' @ join '','' (map (\<lambda>kv. quote (fst kv) @ '':'' @ stringify (snd kv)) kvs) @ ''}''"

text \<open>\<^verbatim>\<open>JSON.stringify(undefined)\<close> is \<^verbatim>\<open>undefined\<close>.\<close>

definition JSON_stringify :: "jsv \<Rightarrow> string option" where
  "JSON_stringify v = map_option stringify v"

text \<open>A string or \<^verbatim>\<open>undefined\<close> inside a template literal.\<close>

fun template_str :: "string option \<Rightarrow> string" where
  "template_str None = ''undefined''"
| "template_str (Some s) = s"

subsection \<open>A value inside a template literal\<close>

fun sequence_err :: "(js_error + 'a) list \<Rightarrow> js_error + 'a list" where
  "sequence_err [] = Inr []"
| "sequence_err (r # rs) =
     (case r of
        Inl e \<Rightarrow> Inl e
      | Inr x \<Rightarrow> (case sequence_err rs of Inl e \<Rightarrow> Inl e | Inr xs \<Rightarrow> Inr (x # xs)))"

text \<open>
  The string conversion of a value: an array is its elements joined by commas, null
  elements being empty; a mapping is \<^verbatim>\<open>[object Object]\<close>, unless it has an own
  property \<^verbatim>\<open>toString\<close>, which is not a function, and then the conversion throws.
\<close>

fun to_string :: "yval \<Rightarrow> js_error + string" where
  "to_string YNull = Inr ''null''"
| "to_string (YBool b) = Inr (if b then ''true'' else ''false'')"
| "to_string (YNum n) = Inr (show_int n)"
| "to_string (YStr s) = Inr s"
| "to_string (YSeq xs) =
     (case sequence_err (map (\<lambda>x. if x = YNull then Inr [] else to_string x) xs) of
        Inl e \<Rightarrow> Inl e
      | Inr strs \<Rightarrow> Inr (join '','' strs))"
| "to_string (YMap kvs) =
     (if ''toString'' \<in> set (map fst kvs) then Inl TypeError else Inr ''[object Object]'')"

fun template_val :: "jsv \<Rightarrow> js_error + string" where
  "template_val None = Inr ''undefined''"
| "template_val (Some v) = to_string v"

section \<open>The differ (\<^verbatim>\<open>simpleDiff\<close>, lines 231 to 245)\<close>

definition arrow :: string where
  "arrow = [CHR 0xE2, CHR 0x86, CHR 0x92]"

text \<open>
  Lines 233 to 237:
  \<^verbatim>\<open>if (JSON.stringify(a) !== JSON.stringify(b)) changes.push(`${path}: ${JSON.stringify(b)} -> ${JSON.stringify(a)}`)\<close>,
  where the arrow is the character U+2192, three bytes in UTF-8.
\<close>

definition compare :: "jsv \<Rightarrow> jsv \<Rightarrow> string \<Rightarrow> string list \<Rightarrow> string list" where
  "compare a b path changes =
     (if JSON_stringify a \<noteq> JSON_stringify b
      then changes @ [path @ '': '' @ template_str (JSON_stringify b) @ '' '' @ arrow @ '' ''
                        @ template_str (JSON_stringify a)]
      else changes)"

text \<open>
  \<^verbatim>\<open>v[i]\<close> for an index \<open>i\<close>: a TypeError on null and undefined, the element of an
  array, the property named by the decimal index of a mapping, one character of a
  string (here one byte; the differ reads only \<^verbatim>\<open>name\<close>, \<^verbatim>\<open>triggers\<close> and
  \<^verbatim>\<open>steps\<close> of it, which no string has), and \<^verbatim>\<open>undefined\<close> out of range and on
  numbers and booleans.
\<close>

fun index_read :: "jsv \<Rightarrow> nat \<Rightarrow> js_error + jsv" where
  "index_read None i = Inl TypeError"
| "index_read (Some YNull) i = Inl TypeError"
| "index_read (Some (YSeq xs)) i = Inr (if i < length xs then Some (xs ! i) else None)"
| "index_read (Some (YMap kvs)) i = Inr (map_of kvs (show_nat i))"
| "index_read (Some (YStr s)) i = Inr (if i < length s then Some (YStr [s ! i]) else None)"
| "index_read (Some v) i = Inr None"

text \<open>\<^verbatim>\<open>x || {}\<close>\<close>

definition or_empty :: "jsv \<Rightarrow> jsv" where
  "or_empty x = (if truthy x then x else Some (YMap []))"

text \<open>Lines 238 to 243: the callback of \<^verbatim>\<open>current.scenarios.forEach\<close>.\<close>

definition diff_callback :: "jsv \<Rightarrow> yval \<Rightarrow> nat \<Rightarrow> string list \<Rightarrow> js_error + string list" where
  "diff_callback version s i changes =
     (case read_prop version ''scenarios'' of
        Inl e \<Rightarrow> Inl e
      | Inr vscenarios \<Rightarrow>
     (case index_read vscenarios i of
        Inl e \<Rightarrow> Inl e
      | Inr vi \<Rightarrow>
     (let v = or_empty vi in
     (case read_prop (Some s) ''name'' of
        Inl e \<Rightarrow> Inl e
      | Inr sname \<Rightarrow>
     (case read_prop v ''name'' of
        Inl e \<Rightarrow> Inl e
      | Inr vname \<Rightarrow>
     (let changes1 = compare sname vname (''Scenario '' @ show_nat i @ ''.name'') changes in
     (case read_prop (Some s) ''triggers'' of
        Inl e \<Rightarrow> Inl e
      | Inr strig \<Rightarrow>
     (case read_prop v ''triggers'' of
        Inl e \<Rightarrow> Inl e
      | Inr vtrig \<Rightarrow>
     (let changes2 = compare strig vtrig (''Scenario '' @ show_nat i @ ''.triggers'') changes1 in
     (case read_prop (Some s) ''steps'' of
        Inl e \<Rightarrow> Inl e
      | Inr ssteps \<Rightarrow>
     (case read_prop v ''steps'' of
        Inl e \<Rightarrow> Inl e
      | Inr vsteps \<Rightarrow>
         Inr (compare ssteps vsteps (''Scenario '' @ show_nat i @ ''.steps'') changes2))))))))))))"

text \<open>The array \<^verbatim>\<open>changes\<close> when line 244 is reached.\<close>

definition diff_changes :: "jsv \<Rightarrow> jsv \<Rightarrow> js_error + string list" where
  "diff_changes current version =
     (case read_prop current ''scenarios'' of
        Inl e \<Rightarrow> Inl e
      | Inr sc \<Rightarrow>
          (case sc of
             Some (YSeq ss) \<Rightarrow> forEach (diff_callback version) ss 0 []
           | _ \<Rightarrow> Inl TypeError))"

text \<open>\<^verbatim>\<open>changes.length ? changes.join('\n') : 'No differences found.'\<close>\<close>

definition simpleDiff :: "jsv \<Rightarrow> jsv \<Rightarrow> js_error + string" where
  "simpleDiff current version =
     (case diff_changes current version of
        Inl e \<Rightarrow> Inl e
      | Inr changes \<Rightarrow>
          Inr (if changes \<noteq> [] then join [CHR 0x0A] changes else ''No differences found.''))"

section \<open>The trace formatter (command \<^verbatim>\<open>simulate-scenario\<close>, lines 259 to 273)\<close>

text \<open>Line 269, the callback of \<^verbatim>\<open>items.map\<close>: \<^verbatim>\<open>`${it.type} (${it.id})`\<close>\<close>

definition item_str :: "yval \<Rightarrow> js_error + string" where
  "item_str it =
     (case read_prop (Some it) ''type'' of
        Inl e \<Rightarrow> Inl e
      | Inr ty \<Rightarrow>
     (case template_val ty of
        Inl e \<Rightarrow> Inl e
      | Inr tys \<Rightarrow>
     (case read_prop (Some it) ''id'' of
        Inl e \<Rightarrow> Inl e
      | Inr idv \<Rightarrow>
     (case template_val idv of
        Inl e \<Rightarrow> Inl e
      | Inr ids \<Rightarrow> Inr (tys @ '' ('' @ ids @ '')'')))))"

text \<open>Lines 264 to 267: the callback of \<^verbatim>\<open>s.triggers.forEach\<close>.\<close>

definition sim_trigger_callback :: "yval \<Rightarrow> nat \<Rightarrow> string list \<Rightarrow> js_error + string list" where
  "sim_trigger_callback t j simulation =
     (case read_prop (Some t) ''trigger'' of
        Inl e \<Rightarrow> Inl e
      | Inr tr \<Rightarrow>
     (case read_prop tr ''value'' of
        Inl e \<Rightarrow> Inl e
      | Inr tv \<Rightarrow>
     (let val = (if typeof tv = ''string''
                 then (case tv of Some (YStr str) \<Rightarrow> Some str | _ \<Rightarrow> None)
                 else JSON_stringify tv) in
     (case read_prop tr ''type'' of
        Inl e \<Rightarrow> Inl e
      | Inr ty \<Rightarrow>
     (case template_val ty of
        Inl e \<Rightarrow> Inl e
      | Inr tys \<Rightarrow>
          Inr (simulation @ [''  Trigger '' @ show_nat j @ '': '' @ tys @ '' -> '' @ template_str val]))))))"

text \<open>Lines 268 to 271: the callback of \<^verbatim>\<open>s.steps.forEach\<close>.\<close>

definition sim_step_callback :: "yval \<Rightarrow> nat \<Rightarrow> string list \<Rightarrow> js_error + string list" where
  "sim_step_callback st k simulation =
     (case read_prop (Some st) ''parameters'' of
        Inl e \<Rightarrow> Inl e
      | Inr ps \<Rightarrow>
     (case read_prop ps ''items'' of
        Inl e \<Rightarrow> Inl e
      | Inr its \<Rightarrow>
     (case (case its of
              Some (YSeq xs) \<Rightarrow> sequence_err (map item_str xs)
            | _ \<Rightarrow> Inl TypeError) of
        Inl e \<Rightarrow> Inl e
      | Inr strs \<Rightarrow>
     (let items = join '', '' strs in
     (case read_prop (Some st) ''type'' of
        Inl e \<Rightarrow> Inl e
      | Inr ty \<Rightarrow>
     (case template_val ty of
        Inl e \<Rightarrow> Inl e
      | Inr tys \<Rightarrow>
          Inr (simulation @ [''  Step '' @ show_nat k @ '': '' @ tys @ '' -> ''
                               @ (if items \<noteq> [] then items else ''No actions'')])))))))"

text \<open>Lines 262 to 272: the callback of \<^verbatim>\<open>data.scenarios.forEach\<close>.\<close>

definition sim_scenario_callback :: "yval \<Rightarrow> nat \<Rightarrow> string list \<Rightarrow> js_error + string list" where
  "sim_scenario_callback s i simulation =
     (case read_prop (Some s) ''name'' of
        Inl e \<Rightarrow> Inl e
      | Inr sname \<Rightarrow>
     (case template_val sname of
        Inl e \<Rightarrow> Inl e
      | Inr names \<Rightarrow>
     (let simulation1 = simulation @ [''Scenario '' @ show_nat i @ '': '' @ names] in
     (case read_prop (Some s) ''triggers'' of
        Inl e \<Rightarrow> Inl e
      | Inr trs \<Rightarrow>
     (case (case trs of
              Some (YSeq ts) \<Rightarrow> forEach sim_trigger_callback ts 0 simulation1
            | _ \<Rightarrow> Inl TypeError) of
        Inl e \<Rightarrow> Inl e
      | Inr simulation2 \<Rightarrow>
     (case read_prop (Some s) ''steps'' of
        Inl e \<Rightarrow> Inl e
      | Inr sts \<Rightarrow>
         (case sts of
            Some (YSeq ss) \<Rightarrow> forEach sim_step_callback ss 0 simulation2
          | _ \<Rightarrow> Inl TypeError)))))))"

text \<open>
  Lines 260 to 273, on the decoded value \<open>data\<close>: the text of the notice, or the
  exception, which nothing catches.
\<close>

definition simulate :: "jsv \<Rightarrow> js_error + string" where
  "simulate data =
     (if \<not> truthy (opt_prop (opt_prop data ''scenarios'') ''length'')
      then Inr ''No scenarios to simulate.''
      else (case read_prop data ''scenarios'' of
              Inl e \<Rightarrow> Inl e
            | Inr sc \<Rightarrow>
                (case (case sc of
                         Some (YSeq ss) \<Rightarrow> forEach sim_scenario_callback ss 0 []
                       | _ \<Rightarrow> Inl TypeError) of
                   Inl e \<Rightarrow> Inl e
                 | Inr simulation \<Rightarrow>
                     Inr (''Simulation:'' @ [CHR 0x0A] @ join [CHR 0x0A] simulation))))"

section \<open>The specification's side\<close>

subsection \<open>The validator's list, in the order of section 4.1\<close>

text \<open>
  Step 3 of the specification's algorithm: for each scenario in document order the
  scenario-id error, the scenario-name error, the trigger errors in trigger order and
  the step errors in step order. The lists below are put together in that order, with
  \<open>concat\<close> and \<open>enumerate\<close> and no accumulator; which entries count as violations
  is read off the conditions of lines 136 to 148.
\<close>

fun has_value :: "jsv \<Rightarrow> bool" where
  "has_value (Some (YMap kvs)) = (''value'' \<in> set (map fst kvs))"
| "has_value v = False"

definition spec_trigger_errors :: "nat \<Rightarrow> nat \<Rightarrow> yval \<Rightarrow> string list" where
  "spec_trigger_errors i j t =
     (let ty = opt_prop (getprop t ''trigger'') ''type'' in
      (if \<not> truthy ty \<or> typeof ty \<noteq> ''string''
       then [''Scenario '' @ show_nat i @ '', Trigger '' @ show_nat j @ '': type invalid'']
       else [])
      @ (if has_value (getprop t ''trigger'')
         then []
         else [''Scenario '' @ show_nat i @ '', Trigger '' @ show_nat j @ '': value missing'']))"

definition spec_step_errors :: "nat \<Rightarrow> nat \<Rightarrow> yval \<Rightarrow> string list" where
  "spec_step_errors i k st =
     (if truthy (getprop st ''type'') \<and> isArray (opt_prop (getprop st ''parameters'') ''items'')
      then []
      else [''Scenario '' @ show_nat i @ '', Step '' @ show_nat k @ '': invalid structure''])"

definition spec_scenario_errors :: "nat \<Rightarrow> yval \<Rightarrow> string list" where
  "spec_scenario_errors i s =
     (if \<not> truthy (getprop s ''id'') \<or> typeof (getprop s ''id'') \<noteq> ''string''
      then [''Scenario '' @ show_nat i @ '': id invalid''] else [])
     @ (if \<not> truthy (getprop s ''name'') \<or> typeof (getprop s ''name'') \<noteq> ''string''
        then [''Scenario '' @ show_nat i @ '': name invalid''] else [])
     @ (case getprop s ''triggers'' of
          Some (YSeq ts) \<Rightarrow> concat (map (\<lambda>(j, t). spec_trigger_errors i j t) (enumerate 0 ts))
        | _ \<Rightarrow> [''Scenario '' @ show_nat i @ '': triggers missing or not an array''])
     @ (case getprop s ''steps'' of
          Some (YSeq sts) \<Rightarrow> concat (map (\<lambda>(k, st). spec_step_errors i k st) (enumerate 0 sts))
        | _ \<Rightarrow> [''Scenario '' @ show_nat i @ '': steps missing or not an array''])"

definition spec_validate :: "yval list \<Rightarrow> string list" where
  "spec_validate ss = concat (map (\<lambda>(i, s). spec_scenario_errors i s) (enumerate 0 ss))"

subsection \<open>The entries on which the validator's reads succeed\<close>

fun is_object :: "jsv \<Rightarrow> bool" where
  "is_object (Some (YMap kvs)) = True"
| "is_object (Some (YSeq xs)) = True"
| "is_object v = False"

text \<open>A trigger entry that is not null and whose \<^verbatim>\<open>trigger\<close> is a mapping or a sequence.\<close>

definition trigger_entry_ok :: "yval \<Rightarrow> bool" where
  "trigger_entry_ok t = (t \<noteq> YNull \<and> is_object (getprop t ''trigger''))"

text \<open>
  A scenario entry that is not null, whose trigger entries (when \<^verbatim>\<open>triggers\<close> is a
  sequence) are as above and whose step entries (when \<^verbatim>\<open>steps\<close> is a sequence) are
  not null.
\<close>

definition scenario_entry_ok :: "yval \<Rightarrow> bool" where
  "scenario_entry_ok s =
     (s \<noteq> YNull
      \<and> (case getprop s ''triggers'' of
            Some (YSeq ts) \<Rightarrow> list_all trigger_entry_ok ts
          | _ \<Rightarrow> True)
      \<and> (case getprop s ''steps'' of
            Some (YSeq sts) \<Rightarrow> list_all (\<lambda>st. st \<noteq> YNull) sts
          | _ \<Rightarrow> True))"

subsection \<open>Paths and structural agreement for the differ\<close>

text \<open>The three fields the differ compares, in the order of lines 240 to 242.\<close>

definition compared_fields :: "string list" where
  "compared_fields = [''name'', ''triggers'', ''steps'']"

text \<open>
  Section 4.2: two values are equal iff their serialised forms are identical; an absent
  field has no serialised form, and equals only an absent field.
\<close>

definition same_structure :: "jsv \<Rightarrow> jsv \<Rightarrow> bool" where
  "same_structure a b = (JSON_stringify a = JSON_stringify b)"

text \<open>
  The entry of \<open>ps\<close> that the differ compares with the entry \<open>i\<close> of the current
  document: \<^verbatim>\<open>version.scenarios[i] || {}\<close>.
\<close>

definition other_entry :: "yval list \<Rightarrow> nat \<Rightarrow> jsv" where
  "other_entry ps i = or_empty (if i < length ps then Some (ps ! i) else None)"

text \<open>The two documents agree on the compared fields at every index of \<open>cs\<close>.\<close>

definition agree_on_fields :: "yval list \<Rightarrow> yval list \<Rightarrow> bool" where
  "agree_on_fields cs ps =
     list_all (\<lambda>i. list_all (\<lambda>f. same_structure (getprop (cs ! i) f) (opt_prop (other_entry ps i) f))
                              compared_fields)
              [0..<length cs]"

text \<open>The change line of one field, when the field differs.\<close>

definition change_line :: "nat \<Rightarrow> string \<Rightarrow> jsv \<Rightarrow> jsv \<Rightarrow> string" where
  "change_line i f old new =
     ''Scenario '' @ show_nat i @ ''.'' @ f @ '': '' @ template_str (JSON_stringify old)
       @ '' '' @ arrow @ '' '' @ template_str (JSON_stringify new)"

text \<open>
  A list of change lines reports the path (scenario \<open>i\<close>, field \<open>f\<close>) when one of its
  lines starts with \<^verbatim>\<open>Scenario i.f: \<close>.
\<close>

definition reports :: "string list \<Rightarrow> nat \<Rightarrow> string \<Rightarrow> bool" where
  "reports changes i f =
     list_ex (\<lambda>line. take (length (''Scenario '' @ show_nat i @ ''.'' @ f @ '': '')) line
                       = ''Scenario '' @ show_nat i @ ''.'' @ f @ '': '') changes"

text \<open>
  The change lines of the scenario entry \<open>s\<close> at index \<open>i\<close> against the entry \<open>v\<close> of
  the other document, in field order.
\<close>

definition scenario_changes :: "nat \<Rightarrow> yval \<Rightarrow> jsv \<Rightarrow> string list" where
  "scenario_changes i s v =
     concat (map (\<lambda>f. if same_structure (getprop s f) (opt_prop v f) then []
                       else [change_line i f (opt_prop v f) (getprop s f)])
                 compared_fields)"

section \<open>Example documents\<close>

text \<open>A trigger entry without the key \<^verbatim>\<open>trigger\<close>.\<close>

definition doc_trigger_without_trigger :: yval where
  "doc_trigger_without_trigger =
     YMap [(''scenarios'', YSeq [YMap [(''id'', YStr ''a''), (''name'', YStr ''b''),
        (''triggers'', YSeq [YMap []]), (''steps'', YSeq [])]])]"

text \<open>
  Four triggers: \<^verbatim>\<open>value\<close> is null, the empty string and 0 in the first three, and
  absent in the last.
\<close>

definition triggers_with_values :: "yval list" where
  "triggers_with_values =
     [YMap [(''trigger'', YMap [(''type'', YStr ''t''), (''value'', YNull)])],
      YMap [(''trigger'', YMap [(''type'', YStr ''t''), (''value'', YStr [])])],
      YMap [(''trigger'', YMap [(''type'', YStr ''t''), (''value'', YNum 0)])],
      YMap [(''trigger'', YMap [(''type'', YStr ''t'')])]]"

definition scenario_with_values :: yval where
  "scenario_with_values =
     YMap [(''id'', YStr ''a''), (''name'', YStr ''b''),
           (''triggers'', YSeq triggers_with_values), (''steps'', YSeq [])]"

definition doc_with_values :: yval where
  "doc_with_values = YMap [(''scenarios'', YSeq [scenario_with_values])]"

text \<open>A scenario whose \<^verbatim>\<open>id\<close> and \<^verbatim>\<open>name\<close> are empty strings.\<close>

definition doc_empty_id_name :: yval where
  "doc_empty_id_name =
     YMap [(''scenarios'', YSeq [YMap [(''id'', YStr []), (''name'', YStr []),
        (''triggers'', YSeq []), (''steps'', YSeq [])]])]"

text \<open>
  Two scenarios: a trigger without \<^verbatim>\<open>value\<close> in the first; a numeric name and a step
  whose \<^verbatim>\<open>items\<close> is a string in the second.
\<close>

definition two_scenarios :: "yval list" where
  "two_scenarios =
     [YMap [(''id'', YStr ''a''), (''name'', YStr ''A''),
            (''triggers'', YSeq [YMap [(''trigger'', YMap [(''type'', YStr ''t'')])]]),
            (''steps'', YSeq [])],
      YMap [(''id'', YStr ''b''), (''name'', YNum 5),
            (''triggers'', YSeq [YMap [(''trigger'', YMap [(''type'', YStr ''t''), (''value'', YStr ''v'')])]]),
            (''steps'', YSeq [YMap [(''type'', YStr ''s''),
                                    (''parameters'', YMap [(''items'', YStr ''not-an-array'')])]])]]"

definition doc_two_scenarios :: yval where
  "doc_two_scenarios = YMap [(''scenarios'', YSeq two_scenarios)]"

text \<open>A document whose one scenario entry is null.\<close>

definition doc_null_scenario :: yval where
  "doc_null_scenario = YMap [(''scenarios'', YSeq [YNull])]"

text \<open>A document without scenarios, and one with a single named scenario.\<close>

definition doc_no_scenarios :: yval where
  "doc_no_scenarios = YMap [(''scenarios'', YSeq [])]"

definition doc_named_scenario :: yval where
  "doc_named_scenario = YMap [(''scenarios'', YSeq [YMap [(''name'', YStr ''x'')]])]"

text \<open>
  A scenario whose one trigger has no key \<^verbatim>\<open>value\<close>, followed by a null scenario
  entry.
\<close>

definition scenario_value_missing :: yval where
  "scenario_value_missing =
     YMap [(''id'', YStr ''a''), (''name'', YStr ''b''),
           (''triggers'', YSeq [YMap [(''trigger'', YMap [(''type'', YStr ''t'')])]]),
           (''steps'', YSeq [])]"

definition doc_value_missing_then_null :: yval where
  "doc_value_missing_then_null = YMap [(''scenarios'', YSeq [scenario_value_missing, YNull])]"

text \<open>The two documents of the specification's example for the differ.\<close>

definition example_current :: yval where
  "example_current =
     YMap [(''scenarios'', YSeq [YMap [(''name'', YStr ''X''), (''triggers'', YSeq [YNum 1]),
                                       (''steps'', YSeq [])]])]"

definition example_previous :: yval where
  "example_previous =
     YMap [(''scenarios'', YSeq [YMap [(''name'', YStr ''Y''), (''triggers'', YSeq [YNum 1]),
                                       (''steps'', YSeq [])]])]"

text \<open>
  Two documents that agree on the compared fields of the one scenario of the first and
  differ in \<^verbatim>\<open>id\<close>, \<^verbatim>\<open>icon\<close> and \<^verbatim>\<open>devices\<close>; the second has one more scenario.
\<close>

definition newer_scenarios :: "yval list" where
  "newer_scenarios =
     [YMap [(''id'', YStr ''new''), (''name'', YStr ''X''), (''triggers'', YSeq [YNum 1]),
            (''steps'', YSeq []), (''icon'', YStr ''lamp'')]]"

definition older_scenarios :: "yval list" where
  "older_scenarios =
     [YMap [(''id'', YStr ''old''), (''name'', YStr ''X''), (''triggers'', YSeq [YNum 1]),
            (''steps'', YSeq []), (''devices'', YSeq [YStr ''d1''])],
      YMap [(''id'', YStr ''extra''), (''name'', YStr ''Z''), (''triggers'', YSeq []),
            (''steps'', YSeq [])]]"

definition doc_newer :: yval where
  "doc_newer = YMap [(''scenarios'', YSeq newer_scenarios)]"

definition doc_older :: yval where
  "doc_older = YMap [(''scenarios'', YSeq older_scenarios)]"

text \<open>Two documents with two scenarios and with one.\<close>

definition doc_two_names :: yval where
  "doc_two_names =
     YMap [(''scenarios'', YSeq [YMap [(''name'', YStr ''X''), (''triggers'', YSeq []), (''steps'', YSeq [])],
                                 YMap [(''name'', YStr ''Z''), (''triggers'', YSeq []), (''steps'', YSeq [])]])]"

definition doc_one_name :: yval where
  "doc_one_name =
     YMap [(''scenarios'', YSeq [YMap [(''name'', YStr ''Y''), (''triggers'', YSeq []), (''steps'', YSeq [])]])]"

text \<open>A scenario without the key \<^verbatim>\<open>triggers\<close>, and a step without \<^verbatim>\<open>parameters\<close>.\<close>

definition doc_without_triggers :: yval where
  "doc_without_triggers =
     YMap [(''scenarios'', YSeq [YMap [(''id'', YStr ''a''), (''name'', YStr ''N''), (''steps'', YSeq [])]])]"

definition scenario_step_without_parameters :: yval where
  "scenario_step_without_parameters =
     YMap [(''id'', YStr ''a''), (''name'', YStr ''N''), (''triggers'', YSeq []),
           (''steps'', YSeq [YMap [(''type'', YStr ''s'')]])]"

definition doc_step_without_parameters :: yval where
  "doc_step_without_parameters = YMap [(''scenarios'', YSeq [scenario_step_without_parameters])]"

section \<open>Iteration and property reads\<close>

lemma js_error_eq: "(e :: js_error) = TypeError"
  by (cases e) simp

lemma forEach_appends:
  assumes "\<And>x i acc. x \<in> set xs \<Longrightarrow> f x i acc = Inr (acc @ g i x)"
  shows "forEach f xs i0 acc0 = Inr (acc0 @ concat (map (\<lambda>(i, x). g i x) (enumerate i0 xs)))"
  using assms
proof (induction xs arbitrary: i0 acc0)
  case Nil
  then show ?case by simp
next
  case (Cons x xs)
  have "f x i0 acc0 = Inr (acc0 @ g i0 x)" using Cons.prems by simp
  moreover have "forEach f xs (Suc i0) (acc0 @ g i0 x)
      = Inr ((acc0 @ g i0 x) @ concat (map (\<lambda>(i, x). g i x) (enumerate (Suc i0) xs)))"
    using Cons.IH [of "Suc i0" "acc0 @ g i0 x"] Cons.prems by simp
  ultimately show ?case by simp
qed

lemma forEach_throws:
  assumes "x \<in> set xs" and "\<And>i acc. f x i acc = Inl TypeError"
  shows "forEach f xs i0 acc0 = Inl TypeError"
  using assms
proof (induction xs arbitrary: i0 acc0)
  case Nil
  then show ?case by simp
next
  case (Cons y ys)
  show ?case
  proof (cases "f y i0 acc0")
    case (Inl e)
    then show ?thesis by (simp add: js_error_eq)
  next
    case (Inr acc1)
    have "x \<noteq> y" using Inr Cons.prems(2) [of i0 acc0] by auto
    then have "x \<in> set ys" using Cons.prems(1) by simp
    then have "forEach f ys (Suc i0) acc1 = Inl TypeError"
      using Cons.IH Cons.prems(2) by blast
    then show ?thesis using Inr by simp
  qed
qed


lemma read_prop_Some: "v \<noteq> YNull \<Longrightarrow> read_prop (Some v) k = Inr (getprop v k)"
  by (cases v) simp_all

lemma opt_prop_Some: "v \<noteq> YNull \<Longrightarrow> opt_prop (Some v) k = getprop v k"
  by (cases v) simp_all

lemma read_prop_truthy: "truthy (opt_prop v k) \<Longrightarrow> read_prop v k = Inr (opt_prop v k)"
  by (cases v rule: truthy.cases) simp_all

lemma type_invalid_eq:
  "type_invalid tr = Inr (\<not> truthy (opt_prop tr ''type'') \<or> typeof (opt_prop tr ''type'') \<noteq> ''string'')"
  by (simp add: type_invalid_def read_prop_truthy)

lemma value_in_object: "is_object tr \<Longrightarrow> value_in tr = Inr (has_value tr)"
  by (cases tr rule: is_object.cases) simp_all

lemma value_in_not_object: "\<not> is_object tr \<Longrightarrow> value_in tr = Inl TypeError"
  by (cases tr rule: is_object.cases) simp_all

lemma trigger_callback_ok:
  assumes "trigger_entry_ok t"
  shows "trigger_callback i t j errors = Inr (errors @ spec_trigger_errors i j t)"
proof -
  from assms have t: "t \<noteq> YNull" and obj: "is_object (getprop t ''trigger'')"
    by (simp_all add: trigger_entry_ok_def)
  show ?thesis
    by (simp add: trigger_callback_def read_prop_Some [OF t] type_invalid_eq
        value_in_object [OF obj] spec_trigger_errors_def Let_def)
qed

lemma trigger_callback_throws:
  assumes "\<not> trigger_entry_ok t"
  shows "trigger_callback i t j errors = Inl TypeError"
proof (cases "t = YNull")
  case True
  then show ?thesis by (simp add: trigger_callback_def)
next
  case False
  with assms have "\<not> is_object (getprop t ''trigger'')"
    by (simp add: trigger_entry_ok_def)
  then show ?thesis
    by (simp add: trigger_callback_def read_prop_Some [OF False] type_invalid_eq
        value_in_not_object Let_def)
qed

lemma isArray_truthy: "isArray v \<Longrightarrow> truthy v"
  by (cases v rule: isArray.cases) simp_all

lemma step_callback_ok:
  assumes "st \<noteq> YNull"
  shows "step_callback i st k errors = Inr (errors @ spec_step_errors i k st)"
  using isArray_truthy [of "opt_prop (getprop st ''parameters'') ''items''"]
  by (auto simp: step_callback_def read_prop_Some [OF assms] spec_step_errors_def)

lemma step_callback_throws: "step_callback i YNull k errors = Inl TypeError"
  by (simp add: step_callback_def)

lemma triggers_loop_ok:
  assumes "list_all trigger_entry_ok ts"
  shows "forEach (trigger_callback i) ts 0 errors
         = Inr (errors @ concat (map (\<lambda>(j, t). spec_trigger_errors i j t) (enumerate 0 ts)))"
  using assms by (intro forEach_appends) (simp add: list_all_iff trigger_callback_ok)

lemma triggers_loop_throws:
  assumes "\<not> list_all trigger_entry_ok ts"
  shows "forEach (trigger_callback i) ts 0 errors = Inl TypeError"
proof -
  from assms obtain t where "t \<in> set ts" and "\<not> trigger_entry_ok t"
    by (auto simp: list_all_iff)
  then show ?thesis
    by (intro forEach_throws [of t]) (simp_all add: trigger_callback_throws)
qed

lemma steps_loop_ok:
  assumes "list_all (\<lambda>st. st \<noteq> YNull) sts"
  shows "forEach (step_callback i) sts 0 errors
         = Inr (errors @ concat (map (\<lambda>(k, st). spec_step_errors i k st) (enumerate 0 sts)))"
  using assms by (intro forEach_appends) (simp add: list_all_iff step_callback_ok)

lemma steps_loop_throws:
  assumes "\<not> list_all (\<lambda>st. st \<noteq> YNull) sts"
  shows "forEach (step_callback i) sts 0 errors = Inl TypeError"
proof -
  from assms have "YNull \<in> set sts"
    by (auto simp: list_all_iff)
  then show ?thesis
    by (intro forEach_throws [of YNull]) (simp_all add: step_callback_throws)
qed

lemma throw_either_way:
  "(case r of Inl e \<Rightarrow> Inl e | Inr x \<Rightarrow> Inl TypeError) = (Inl TypeError :: js_error + 'b)"
  by (cases r) (simp_all add: js_error_eq)

lemma loop_or_message:
  "(if \<not> truthy v \<or> \<not> isArray v then Inr (acc @ [m])
    else (case v of Some (YSeq xs) \<Rightarrow> F xs | _ \<Rightarrow> Inl TypeError))
   = (case v of Some (YSeq xs) \<Rightarrow> F xs | _ \<Rightarrow> Inr (acc @ [m]))"
  by (cases v rule: isArray.cases) simp_all

text \<open>The callback of a scenario entry that is not null, with the reads done.\<close>

lemma scenario_callback_unfold:
  assumes "s \<noteq> YNull"
    and "E1 = errors @ filter_Boolean
                    [checkField (''Scenario '' @ show_nat i @ '': id'') (getprop s ''id'') ''string'',
                     checkField (''Scenario '' @ show_nat i @ '': name'') (getprop s ''name'') ''string'']"
    and "m1 = ''Scenario '' @ show_nat i @ '': triggers missing or not an array''"
    and "m2 = ''Scenario '' @ show_nat i @ '': steps missing or not an array''"
  shows "scenario_callback s i errors =
     (case (case getprop s ''triggers'' of
              Some (YSeq ts) \<Rightarrow> forEach (trigger_callback i) ts 0 E1
            | _ \<Rightarrow> Inr (E1 @ [m1])) of
        Inl e \<Rightarrow> Inl e
      | Inr errors2 \<Rightarrow>
          (case getprop s ''steps'' of
             Some (YSeq sts) \<Rightarrow> forEach (step_callback i) sts 0 errors2
           | _ \<Rightarrow> Inr (errors2 @ [m2])))"
  unfolding assms(2-4) scenario_callback_def read_prop_Some [OF assms(1)] Let_def sum.case loop_or_message
  by (rule refl)

lemma loop_case_ok:
  assumes "\<And>xs. v = Some (YSeq xs) \<Longrightarrow> F xs = Inr (acc @ G xs)"
  shows "(case v of Some (YSeq xs) \<Rightarrow> F xs | _ \<Rightarrow> Inr (acc @ [m]))
         = Inr (acc @ (case v of Some (YSeq xs) \<Rightarrow> G xs | _ \<Rightarrow> [m]))"
  by (cases v rule: isArray.cases) (simp_all add: assms)

lemma scenario_callback_ok:
  assumes "scenario_entry_ok s"
  shows "scenario_callback s i errors = Inr (errors @ spec_scenario_errors i s)"
proof -
  from assms have s: "s \<noteq> YNull" by (simp add: scenario_entry_ok_def)
  from assms have trig: "\<And>ts. getprop s ''triggers'' = Some (YSeq ts) \<Longrightarrow> list_all trigger_entry_ok ts"
    by (simp add: scenario_entry_ok_def)
  from assms have stp: "\<And>sts. getprop s ''steps'' = Some (YSeq sts) \<Longrightarrow> list_all (\<lambda>st. st \<noteq> YNull) sts"
    by (simp add: scenario_entry_ok_def)
  define E1 where "E1 = errors @ filter_Boolean
                    [checkField (''Scenario '' @ show_nat i @ '': id'') (getprop s ''id'') ''string'',
                     checkField (''Scenario '' @ show_nat i @ '': name'') (getprop s ''name'') ''string'']"
  define m1 where "m1 = ''Scenario '' @ show_nat i @ '': triggers missing or not an array''"
  define m2 where "m2 = ''Scenario '' @ show_nat i @ '': steps missing or not an array''"
  define T where "T = (case getprop s ''triggers'' of
          Some (YSeq ts) \<Rightarrow> concat (map (\<lambda>(j, t). spec_trigger_errors i j t) (enumerate 0 ts))
        | _ \<Rightarrow> [m1])"
  define S where "S = (case getprop s ''steps'' of
          Some (YSeq sts) \<Rightarrow> concat (map (\<lambda>(k, st). spec_step_errors i k st) (enumerate 0 sts))
        | _ \<Rightarrow> [m2])"
  have A: "(case getprop s ''triggers'' of
              Some (YSeq ts) \<Rightarrow> forEach (trigger_callback i) ts 0 E1
            | _ \<Rightarrow> Inr (E1 @ [m1])) = Inr (E1 @ T)"
    unfolding T_def by (rule loop_case_ok) (simp add: trig triggers_loop_ok)
  have B: "(case getprop s ''steps'' of
              Some (YSeq sts) \<Rightarrow> forEach (step_callback i) sts 0 (E1 @ T)
            | _ \<Rightarrow> Inr ((E1 @ T) @ [m2])) = Inr ((E1 @ T) @ S)"
    unfolding S_def by (rule loop_case_ok) (simp add: stp steps_loop_ok)
  have "scenario_callback s i errors = Inr ((E1 @ T) @ S)"
    unfolding scenario_callback_unfold [OF s E1_def m1_def m2_def] A sum.case B by (rule refl)
  moreover have "(E1 @ T) @ S = errors @ spec_scenario_errors i s"
    unfolding E1_def T_def S_def m1_def m2_def spec_scenario_errors_def
    by (simp add: checkField_def)
  ultimately show ?thesis by simp
qed

lemma scenario_callback_throws:
  assumes "\<not> scenario_entry_ok s"
  shows "scenario_callback s i errors = Inl TypeError"
proof (cases "s = YNull")
  case True
  then show ?thesis by (simp add: scenario_callback_def)
next
  case s: False
  show ?thesis
  proof (cases "case getprop s ''triggers'' of Some (YSeq ts) \<Rightarrow> list_all trigger_entry_ok ts | _ \<Rightarrow> True")
    case False
    then obtain ts where ts: "getprop s ''triggers'' = Some (YSeq ts)" and bad: "\<not> list_all trigger_entry_ok ts"
      by (auto split: option.splits yval.splits)
    show ?thesis
      unfolding scenario_callback_unfold [OF s refl refl refl]
      by (simp add: ts triggers_loop_throws [OF bad])
  next
    case True
    with assms s obtain sts where sts: "getprop s ''steps'' = Some (YSeq sts)"
      and bad: "\<not> list_all (\<lambda>st. st \<noteq> YNull) sts"
      by (auto simp: scenario_entry_ok_def split: option.splits yval.splits)
    show ?thesis
      unfolding scenario_callback_unfold [OF s refl refl refl]
      by (simp add: sts steps_loop_throws [OF bad] throw_either_way cong: sum.case_cong)
  qed
qed

lemma validate_scenarios:
  assumes "opt_prop data ''scenarios'' = Some (YSeq ss)"
  shows "validate data = (if list_all scenario_entry_ok ss then Inr (spec_validate ss) else Inl TypeError)"
proof (cases "list_all scenario_entry_ok ss")
  case True
  then have "forEach scenario_callback ss 0 [] = Inr ([] @ spec_validate ss)"
    unfolding spec_validate_def
    by (intro forEach_appends) (simp add: list_all_iff scenario_callback_ok)
  then show ?thesis using True assms by (simp add: validate_def)
next
  case False
  then obtain s where "s \<in> set ss" and "\<not> scenario_entry_ok s"
    by (auto simp: list_all_iff)
  then have "forEach scenario_callback ss 0 [] = Inl TypeError"
    by (intro forEach_throws [of s]) (simp_all add: scenario_callback_throws)
  then show ?thesis using False assms by (simp add: validate_def)
qed

section \<open>Decimal numbers and the messages they separate\<close>

lemma digit_char_is_digit: "d < 10 \<Longrightarrow> digit_char d \<in> set ''0123456789''"
proof -
  assume "d < 10"
  moreover have "\<forall>d \<in> set [0..<10]. digit_char d \<in> set ''0123456789''" by code_simp
  ultimately show ?thesis by simp
qed

lemma digit_char_inj: "a < 10 \<Longrightarrow> b < 10 \<Longrightarrow> digit_char a = digit_char b \<Longrightarrow> a = b"
proof -
  assume a: "a < 10" and b: "b < 10" and eq: "digit_char a = digit_char b"
  from eq have "(of_char (char_of (48 + a)) :: nat) = of_char (char_of (48 + b))"
    by (simp add: digit_char_def)
  with a b show ?thesis by simp
qed

lemma show_nat_nonempty: "show_nat n \<noteq> []"
  by (subst show_nat.simps) simp

lemma show_nat_digits: "c \<in> set (show_nat n) \<Longrightarrow> c \<in> set ''0123456789''"
proof (induction n rule: show_nat.induct)
  case (1 n)
  show ?case
  proof (cases "n < 10")
    case True
    with "1.prems" have "c = digit_char n" by (subst (asm) show_nat.simps) simp
    then show ?thesis using digit_char_is_digit [OF True] by simp
  next
    case False
    with "1.prems" have "c \<in> set (show_nat (n div 10)) \<or> c = digit_char (n mod 10)"
      by (subst (asm) show_nat.simps) auto
    then show ?thesis
    proof
      assume "c \<in> set (show_nat (n div 10))"
      then show ?thesis using "1.IH" False by simp
    next
      assume "c = digit_char (n mod 10)"
      then show ?thesis using digit_char_is_digit [of "n mod 10"] by simp
    qed
  qed
qed

lemma show_nat_inj: "show_nat n = show_nat m \<Longrightarrow> n = m"
proof (induction n arbitrary: m rule: show_nat.induct)
  case (1 n)
  show ?case
  proof (cases "n < 10")
    case n: True
    show ?thesis
    proof (cases "m < 10")
      case True
      with n "1.prems" have "digit_char n = digit_char m"
        by (simp add: show_nat.simps [of n] show_nat.simps [of m])
      then show ?thesis using n True by (rule digit_char_inj [rotated 2])
    next
      case False
      with n "1.prems" have "[digit_char n] = show_nat (m div 10) @ [digit_char (m mod 10)]"
        by (simp add: show_nat.simps [of n] show_nat.simps [of m])
      then show ?thesis using show_nat_nonempty [of "m div 10"] by simp
    qed
  next
    case n: False
    show ?thesis
    proof (cases "m < 10")
      case True
      with n "1.prems" have "show_nat (n div 10) @ [digit_char (n mod 10)] = [digit_char m]"
        by (simp add: show_nat.simps [of n] show_nat.simps [of m])
      then show ?thesis using show_nat_nonempty [of "n div 10"] by simp
    next
      case False
      with n "1.prems" have "show_nat (n div 10) @ [digit_char (n mod 10)]
                             = show_nat (m div 10) @ [digit_char (m mod 10)]"
        by (simp add: show_nat.simps [of n] show_nat.simps [of m])
      then have a: "show_nat (n div 10) = show_nat (m div 10)"
        and b: "digit_char (n mod 10) = digit_char (m mod 10)" by simp_all
      from a have "n div 10 = m div 10" using "1.IH" n by simp
      moreover from b have "n mod 10 = m mod 10" by (intro digit_char_inj) simp_all
      ultimately show ?thesis by (metis div_mult_mod_eq)
    qed
  qed
qed

text \<open>Two strings that agree up to the first character outside a class agree part by part.\<close>

lemma split_at_first_other:
  assumes "\<forall>c \<in> set a. P c" and "\<forall>c \<in> set b. P c" and "\<not> P x" and "\<not> P y"
    and "a @ x # r = b @ y # t"
  shows "a = b \<and> x = y \<and> r = t"
  using assms
proof (induction a arbitrary: b)
  case Nil
  then show ?case by (cases b) auto
next
  case (Cons c a)
  then show ?case by (cases b) auto
qed

lemma show_nat_sep:
  assumes "x \<notin> set ''0123456789''" and "y \<notin> set ''0123456789''"
  shows "(show_nat i @ x # r = show_nat j @ y # t) = (i = j \<and> x = y \<and> r = t)"
proof
  assume eq: "show_nat i @ x # r = show_nat j @ y # t"
  have "show_nat i = show_nat j \<and> x = y \<and> r = t"
    by (rule split_at_first_other [where P = "\<lambda>c. c \<in> set ''0123456789''", OF _ _ assms eq])
       (blast intro: show_nat_digits)+
  then show "i = j \<and> x = y \<and> r = t" using show_nat_inj by blast
qed simp


lemma in_concat_enumerate:
  "(x \<in> set (concat (map (\<lambda>(i, y). g i y) (enumerate n ys))))
   = (\<exists>k < length ys. x \<in> set (g (n + k) (ys ! k)))"
proof
  assume "x \<in> set (concat (map (\<lambda>(i, y). g i y) (enumerate n ys)))"
  then obtain i y where iy: "(i, y) \<in> set (enumerate n ys)" and x: "x \<in> set (g i y)"
    by auto
  from iy have "n \<le> i" and "i - n < length ys" and "ys ! (i - n) = y"
    by (auto simp: in_set_enumerate_eq)
  with x show "\<exists>k < length ys. x \<in> set (g (n + k) (ys ! k))"
    by (intro exI [of _ "i - n"]) simp
next
  assume "\<exists>k < length ys. x \<in> set (g (n + k) (ys ! k))"
  then obtain k where k: "k < length ys" and x: "x \<in> set (g (n + k) (ys ! k))" by blast
  from k have "(n + k, ys ! k) \<in> set (enumerate n ys)"
    by (simp add: in_set_enumerate_eq)
  with x show "x \<in> set (concat (map (\<lambda>(i, y). g i y) (enumerate n ys)))"
    by force
qed

lemma show_nat_eq_iff: "(show_nat n = show_nat m) = (n = m)"
  using show_nat_inj by blast

lemma value_missing_in_trigger:
  assumes "m = ''Scenario '' @ show_nat i @ '', Trigger '' @ show_nat j @ '': value missing''"
  shows "(m \<in> set (spec_trigger_errors i' j' t))
         = (i = i' \<and> j = j' \<and> \<not> has_value (getprop t ''trigger''))"
  unfolding assms
  by (auto simp: spec_trigger_errors_def Let_def show_nat_sep show_nat_eq_iff)

lemma value_missing_in_step:
  assumes "m = ''Scenario '' @ show_nat i @ '', Trigger '' @ show_nat j @ '': value missing''"
  shows "m \<notin> set (spec_step_errors i' k st)"
  unfolding assms
  by (simp add: spec_step_errors_def show_nat_sep)

lemma value_missing_in_scenario:
  assumes "m = ''Scenario '' @ show_nat i @ '', Trigger '' @ show_nat j @ '': value missing''"
  shows "(m \<in> set (spec_scenario_errors i' s))
   = (i = i' \<and> (\<exists>ts. getprop s ''triggers'' = Some (YSeq ts) \<and> j < length ts
                    \<and> \<not> has_value (getprop (ts ! j) ''trigger'')))"
proof -
  have heads: "m \<noteq> ''Scenario '' @ show_nat i' @ '': id invalid''"
    "m \<noteq> ''Scenario '' @ show_nat i' @ '': name invalid''"
    "m \<noteq> ''Scenario '' @ show_nat i' @ '': triggers missing or not an array''"
    "m \<noteq> ''Scenario '' @ show_nat i' @ '': steps missing or not an array''"
    unfolding assms by (simp_all add: show_nat_sep)
  have T: "(m \<in> set (case getprop s ''triggers'' of
          Some (YSeq ts) \<Rightarrow> concat (map (\<lambda>(j, t). spec_trigger_errors i' j t) (enumerate 0 ts))
        | _ \<Rightarrow> [''Scenario '' @ show_nat i' @ '': triggers missing or not an array'']))
      = (i = i' \<and> (\<exists>ts. getprop s ''triggers'' = Some (YSeq ts) \<and> j < length ts
                    \<and> \<not> has_value (getprop (ts ! j) ''trigger'')))"
    using heads(3)
    by (cases "getprop s ''triggers''" rule: isArray.cases)
       (auto simp del: set_concat simp add: in_concat_enumerate value_missing_in_trigger [OF assms])
  have S: "m \<notin> set (case getprop s ''steps'' of
          Some (YSeq sts) \<Rightarrow> concat (map (\<lambda>(k, st). spec_step_errors i' k st) (enumerate 0 sts))
        | _ \<Rightarrow> [''Scenario '' @ show_nat i' @ '': steps missing or not an array''])"
    using heads(4)
    by (cases "getprop s ''steps''" rule: isArray.cases)
       (auto simp del: set_concat simp add: in_concat_enumerate value_missing_in_step [OF assms])
  show ?thesis
    unfolding spec_scenario_errors_def set_append Un_iff T
    using heads(1,2) S by auto
qed

lemma value_missing_in_validate:
  assumes "m = ''Scenario '' @ show_nat i @ '', Trigger '' @ show_nat j @ '': value missing''"
  shows "(m \<in> set (spec_validate ss))
   = (i < length ss \<and> (\<exists>ts. getprop (ss ! i) ''triggers'' = Some (YSeq ts) \<and> j < length ts
                    \<and> \<not> has_value (getprop (ts ! j) ''trigger'')))"
  unfolding spec_validate_def in_concat_enumerate
  by (auto simp: value_missing_in_scenario [OF assms])


lemma field_invalid_iff:
  "(\<not> truthy v \<or> typeof v \<noteq> ''string'') = (\<not> (\<exists>str. v = Some (YStr str) \<and> str \<noteq> []))"
  by (cases v rule: truthy.cases) simp_all

lemma head_message_in_trigger:
  assumes "m = ''Scenario '' @ show_nat i @ '': '' @ rest"
  shows "m \<notin> set (spec_trigger_errors i' j t)"
  unfolding assms
  by (simp add: spec_trigger_errors_def Let_def show_nat_sep)

lemma head_message_in_step:
  assumes "m = ''Scenario '' @ show_nat i @ '': '' @ rest"
  shows "m \<notin> set (spec_step_errors i' k st)"
  unfolding assms
  by (simp add: spec_step_errors_def show_nat_sep)

lemma id_invalid_in_scenario:
  assumes "m = ''Scenario '' @ show_nat i @ '': id invalid''"
  shows "(m \<in> set (spec_scenario_errors i' s))
   = (i = i' \<and> \<not> (\<exists>str. getprop s ''id'' = Some (YStr str) \<and> str \<noteq> []))"
proof -
  have m: "m = ''Scenario '' @ show_nat i @ '': '' @ ''id invalid''" by (simp add: assms)
  have heads: "(m = ''Scenario '' @ show_nat i' @ '': id invalid'') = (i = i')"
    "m \<noteq> ''Scenario '' @ show_nat i' @ '': name invalid''"
    "m \<noteq> ''Scenario '' @ show_nat i' @ '': triggers missing or not an array''"
    "m \<noteq> ''Scenario '' @ show_nat i' @ '': steps missing or not an array''"
    unfolding assms by (simp_all add: show_nat_sep show_nat_eq_iff)
  have T: "m \<notin> set (case getprop s ''triggers'' of
          Some (YSeq ts) \<Rightarrow> concat (map (\<lambda>(j, t). spec_trigger_errors i' j t) (enumerate 0 ts))
        | _ \<Rightarrow> [''Scenario '' @ show_nat i' @ '': triggers missing or not an array''])"
    using heads(3)
    by (cases "getprop s ''triggers''" rule: isArray.cases)
       (auto simp del: set_concat simp add: in_concat_enumerate head_message_in_trigger [OF m])
  have S: "m \<notin> set (case getprop s ''steps'' of
          Some (YSeq sts) \<Rightarrow> concat (map (\<lambda>(k, st). spec_step_errors i' k st) (enumerate 0 sts))
        | _ \<Rightarrow> [''Scenario '' @ show_nat i' @ '': steps missing or not an array''])"
    using heads(4)
    by (cases "getprop s ''steps''" rule: isArray.cases)
       (auto simp del: set_concat simp add: in_concat_enumerate head_message_in_step [OF m])
  show ?thesis
    unfolding spec_scenario_errors_def set_append Un_iff field_invalid_iff
    using heads(1,2) S T by auto
qed

lemma name_invalid_in_scenario:
  assumes "m = ''Scenario '' @ show_nat i @ '': name invalid''"
  shows "(m \<in> set (spec_scenario_errors i' s))
   = (i = i' \<and> \<not> (\<exists>str. getprop s ''name'' = Some (YStr str) \<and> str \<noteq> []))"
proof -
  have m: "m = ''Scenario '' @ show_nat i @ '': '' @ ''name invalid''" by (simp add: assms)
  have heads: "m \<noteq> ''Scenario '' @ show_nat i' @ '': id invalid''"
    "(m = ''Scenario '' @ show_nat i' @ '': name invalid'') = (i = i')"
    "m \<noteq> ''Scenario '' @ show_nat i' @ '': triggers missing or not an array''"
    "m \<noteq> ''Scenario '' @ show_nat i' @ '': steps missing or not an array''"
    unfolding assms by (simp_all add: show_nat_sep show_nat_eq_iff)
  have T: "m \<notin> set (case getprop s ''triggers'' of
          Some (YSeq ts) \<Rightarrow> concat (map (\<lambda>(j, t). spec_trigger_errors i' j t) (enumerate 0 ts))
        | _ \<Rightarrow> [''Scenario '' @ show_nat i' @ '': triggers missing or not an array''])"
    using heads(3)
    by (cases "getprop s ''triggers''" rule: isArray.cases)
       (auto simp del: set_concat simp add: in_concat_enumerate head_message_in_trigger [OF m])
  have S: "m \<notin> set (case getprop s ''steps'' of
          Some (YSeq sts) \<Rightarrow> concat (map (\<lambda>(k, st). spec_step_errors i' k st) (enumerate 0 sts))
        | _ \<Rightarrow> [''Scenario '' @ show_nat i' @ '': steps missing or not an array''])"
    using heads(4)
    by (cases "getprop s ''steps''" rule: isArray.cases)
       (auto simp del: set_concat simp add: in_concat_enumerate head_message_in_step [OF m])
  show ?thesis
    unfolding spec_scenario_errors_def set_append Un_iff field_invalid_iff
    using heads(1,2) S T by auto
qed

lemma id_invalid_in_validate:
  assumes "m = ''Scenario '' @ show_nat i @ '': id invalid''"
  shows "(m \<in> set (spec_validate ss))
   = (i < length ss \<and> \<not> (\<exists>str. getprop (ss ! i) ''id'' = Some (YStr str) \<and> str \<noteq> []))"
  unfolding spec_validate_def in_concat_enumerate
  by (auto simp: id_invalid_in_scenario [OF assms])

lemma name_invalid_in_validate:
  assumes "m = ''Scenario '' @ show_nat i @ '': name invalid''"
  shows "(m \<in> set (spec_validate ss))
   = (i < length ss \<and> \<not> (\<exists>str. getprop (ss ! i) ''name'' = Some (YStr str) \<and> str \<noteq> []))"
  unfolding spec_validate_def in_concat_enumerate
  by (auto simp: name_invalid_in_scenario [OF assms])

section \<open>What the differ computes\<close>

lemma truthy_or_empty: "truthy (or_empty x)"
  by (simp add: or_empty_def)

lemma read_prop_of_truthy: "truthy v \<Longrightarrow> read_prop v k = Inr (opt_prop v k)"
  by (cases v rule: truthy.cases) simp_all

lemma compare_eq:
  "compare a b (''Scenario '' @ show_nat i @ ''.'' @ f) changes
   = changes @ (if same_structure a b then [] else [change_line i f b a])"
  by (simp add: compare_def same_structure_def change_line_def)

lemma scenario_changes_unfold:
  "scenario_changes i s v =
     (if same_structure (getprop s ''name'') (opt_prop v ''name'') then []
      else [change_line i ''name'' (opt_prop v ''name'') (getprop s ''name'')])
     @ (if same_structure (getprop s ''triggers'') (opt_prop v ''triggers'') then []
        else [change_line i ''triggers'' (opt_prop v ''triggers'') (getprop s ''triggers'')])
     @ (if same_structure (getprop s ''steps'') (opt_prop v ''steps'') then []
        else [change_line i ''steps'' (opt_prop v ''steps'') (getprop s ''steps'')])"
  by (simp add: scenario_changes_def compared_fields_def)

lemma diff_callback_ok:
  assumes "read_prop version ''scenarios'' = Inr (Some (YSeq ps))" and "s \<noteq> YNull"
  shows "diff_callback version s i changes = Inr (changes @ scenario_changes i s (other_entry ps i))"
proof -
  have idx: "index_read (Some (YSeq ps)) i = Inr (if i < length ps then Some (ps ! i) else None)"
    by simp
  have v: "\<And>k. read_prop (other_entry ps i) k = Inr (opt_prop (other_entry ps i) k)"
    by (simp add: other_entry_def read_prop_of_truthy truthy_or_empty)
  have paths: "''Scenario '' @ show_nat i @ ''.name'' = ''Scenario '' @ show_nat i @ ''.'' @ ''name''"
    "''Scenario '' @ show_nat i @ ''.triggers'' = ''Scenario '' @ show_nat i @ ''.'' @ ''triggers''"
    "''Scenario '' @ show_nat i @ ''.steps'' = ''Scenario '' @ show_nat i @ ''.'' @ ''steps''"
    by simp_all
  show ?thesis
    unfolding diff_callback_def assms(1) sum.case idx other_entry_def [symmetric] Let_def
      read_prop_Some [OF assms(2)] v paths compare_eq scenario_changes_unfold
    by simp
qed

lemma diff_changes_ok:
  assumes "getprop cur ''scenarios'' = Some (YSeq cs)"
    and "getprop prev ''scenarios'' = Some (YSeq ps)"
    and "YNull \<notin> set cs"
  shows "diff_changes (Some cur) (Some prev)
         = Inr (concat (map (\<lambda>(i, s). scenario_changes i s (other_entry ps i)) (enumerate 0 cs)))"
proof -
  have cur: "cur \<noteq> YNull" and prev: "prev \<noteq> YNull" using assms(1,2) by auto
  have rp: "read_prop (Some prev) ''scenarios'' = Inr (Some (YSeq ps))"
    by (simp add: read_prop_Some [OF prev] assms(2))
  have "forEach (diff_callback (Some prev)) cs 0 []
        = Inr ([] @ concat (map (\<lambda>(i, s). scenario_changes i s (other_entry ps i)) (enumerate 0 cs)))"
  proof (rule forEach_appends)
    fix x i acc
    assume "x \<in> set cs"
    then have "x \<noteq> YNull" using assms(3) by auto
    then show "diff_callback (Some prev) x i acc = Inr (acc @ scenario_changes i x (other_entry ps i))"
      by (rule diff_callback_ok [OF rp])
  qed
  then show ?thesis
    by (simp add: diff_changes_def read_prop_Some [OF cur] assms(1))
qed

lemma diff_callback_null: "diff_callback version YNull i changes = Inl TypeError"
  unfolding diff_callback_def
  by (simp add: js_error_eq or_empty_def Let_def split: sum.splits)

lemma diff_changes_null:
  assumes "getprop cur ''scenarios'' = Some (YSeq cs)" and "YNull \<in> set cs"
  shows "diff_changes (Some cur) version = Inl TypeError"
proof -
  have cur: "cur \<noteq> YNull" using assms(1) by auto
  have "forEach (diff_callback version) cs 0 [] = Inl TypeError"
    using assms(2) by (rule forEach_throws) (rule diff_callback_null)
  then show ?thesis
    by (simp add: diff_changes_def read_prop_Some [OF cur] assms(1))
qed

text \<open>An entry that is not null has the same compared fields as \<^verbatim>\<open>entry || {}\<close>.\<close>

lemma or_empty_fields:
  assumes "s \<noteq> YNull" and "f \<in> set compared_fields"
  shows "opt_prop (or_empty (Some s)) f = getprop s f"
  using assms by (cases s) (auto simp: or_empty_def compared_fields_def)

lemma scenario_changes_Nil:
  "(scenario_changes i s v = [])
   = (\<forall>f \<in> set compared_fields. same_structure (getprop s f) (opt_prop v f))"
  by (simp add: scenario_changes_unfold compared_fields_def)

lemma concat_enumerate_Nil:
  "(concat (map (\<lambda>(i, y). g i y) (enumerate n ys)) = []) = (\<forall>k < length ys. g (n + k) (ys ! k) = [])"
proof -
  have "(concat (map (\<lambda>(i, y). g i y) (enumerate n ys)) = [])
        = (\<forall>x. x \<notin> set (concat (map (\<lambda>(i, y). g i y) (enumerate n ys))))"
    by (metis all_not_in_conv set_empty)
  also have "\<dots> = (\<forall>k < length ys. g (n + k) (ys ! k) = [])"
    unfolding in_concat_enumerate by (metis all_not_in_conv set_empty)
  finally show ?thesis .
qed

lemma other_entry_in_range: "i < length ps \<Longrightarrow> other_entry ps i = or_empty (Some (ps ! i))"
  by (simp add: other_entry_def)

lemma same_structure_refl: "same_structure a a"
  by (simp add: same_structure_def)

lemma same_structure_sym: "same_structure a b = same_structure b a"
  by (auto simp: same_structure_def)

lemma take_eq_prefix: "(take (length p) l = p) = (\<exists>r. l = p @ r)"
  by (metis append_eq_conv_conj append_take_drop_id)

lemma field_prefix:
  assumes "f \<in> set compared_fields" and "f' \<in> set compared_fields"
  shows "(\<exists>r. f' @ '': '' @ R = f @ '': '' @ r) = (f = f')"
proof -
  from assms have "f = ''name'' \<or> f = ''triggers'' \<or> f = ''steps''"
    and "f' = ''name'' \<or> f' = ''triggers'' \<or> f' = ''steps''"
    by (simp_all add: compared_fields_def)
  then show ?thesis by (elim disjE) simp_all
qed

lemma path_prefix:
  assumes "p = ''Scenario '' @ show_nat i @ ''.'' @ f @ '': ''"
    and "f \<in> set compared_fields" and "f' \<in> set compared_fields"
  shows "(take (length p) (change_line k f' old new) = p) = (i = k \<and> f = f')"
proof -
  define R where "R = template_str (JSON_stringify old) @ '' '' @ arrow @ '' '' @ template_str (JSON_stringify new)"
  have "(\<exists>r. change_line k f' old new = p @ r)
        = (\<exists>r. show_nat k @ CHR ''.'' # (f' @ '': '' @ R) = show_nat i @ CHR ''.'' # (f @ '': '' @ r))"
    by (simp add: change_line_def R_def assms(1))
  also have "\<dots> = (i = k \<and> (\<exists>r. f' @ '': '' @ R = f @ '': '' @ r))"
    by (simp add: show_nat_sep) blast
  also have "\<dots> = (i = k \<and> f = f')"
    unfolding field_prefix [OF assms(2,3)] by (rule refl)
  finally show ?thesis unfolding take_eq_prefix .
qed

lemma in_scenario_changes:
  "(line \<in> set (scenario_changes k s v))
   = (\<exists>f \<in> set compared_fields. \<not> same_structure (getprop s f) (opt_prop v f)
        \<and> line = change_line k f (opt_prop v f) (getprop s f))"
  unfolding scenario_changes_def by auto

lemma reports_changes:
  assumes "f \<in> set compared_fields"
  shows "reports (concat (map (\<lambda>(i, s). scenario_changes i s (other_entry ps i)) (enumerate 0 cs))) i f
         = (i < length cs \<and> \<not> same_structure (getprop (cs ! i) f) (opt_prop (other_entry ps i) f))"
proof -
  define p where "p = ''Scenario '' @ show_nat i @ ''.'' @ f @ '': ''"
  define lines where
    "lines = concat (map (\<lambda>(i, s). scenario_changes i s (other_entry ps i)) (enumerate 0 cs))"
  have rep: "reports lines i f = (\<exists>line \<in> set lines. take (length p) line = p)"
    unfolding reports_def list_ex_iff p_def by (rule refl)
  have mem: "(line \<in> set lines)
             = (\<exists>k < length cs. line \<in> set (scenario_changes k (cs ! k) (other_entry ps k)))" for line
    unfolding lines_def in_concat_enumerate by simp
  have pp: "(take (length p) (change_line k f' old new) = p) = (i = k \<and> f = f')"
    if "f' \<in> set compared_fields" for k f' old new
    by (rule path_prefix [OF p_def assms that])
  have "reports lines i f
        = (i < length cs \<and> \<not> same_structure (getprop (cs ! i) f) (opt_prop (other_entry ps i) f))"
  proof
    assume "reports lines i f"
    then obtain line where "line \<in> set lines" and tk: "take (length p) line = p"
      unfolding rep by blast
    then obtain k where k: "k < length cs"
      and "line \<in> set (scenario_changes k (cs ! k) (other_entry ps k))"
      unfolding mem by blast
    then obtain f' where f': "f' \<in> set compared_fields"
      and diff: "\<not> same_structure (getprop (cs ! k) f') (opt_prop (other_entry ps k) f')"
      and line: "line = change_line k f' (opt_prop (other_entry ps k) f') (getprop (cs ! k) f')"
      unfolding in_scenario_changes by blast
    from tk have "i = k \<and> f = f'" unfolding line pp [OF f'] .
    with k diff show "i < length cs \<and> \<not> same_structure (getprop (cs ! i) f) (opt_prop (other_entry ps i) f)"
      by simp
  next
    assume a: "i < length cs \<and> \<not> same_structure (getprop (cs ! i) f) (opt_prop (other_entry ps i) f)"
    let ?line = "change_line i f (opt_prop (other_entry ps i) f) (getprop (cs ! i) f)"
    have "?line \<in> set (scenario_changes i (cs ! i) (other_entry ps i))"
      unfolding in_scenario_changes using a assms by blast
    then have "?line \<in> set lines" unfolding mem using a by blast
    moreover have "take (length p) ?line = p" unfolding pp [OF assms] by simp
    ultimately show "reports lines i f" unfolding rep by blast
  qed
  then show ?thesis unfolding lines_def .
qed

section \<open>Where the trace formatter throws\<close>

lemma bind_throws:
  assumes "\<And>x. F x = Inl TypeError"
  shows "(case r of Inl e \<Rightarrow> Inl e | Inr x \<Rightarrow> F x) = (Inl TypeError :: js_error + 'b)"
  by (cases r) (simp_all add: js_error_eq assms)

lemma opt_prop_getprop: "opt_prop (Some v) k = getprop v k"
  by (cases v) simp_all

lemma read_prop_cases: "read_prop v k = Inl TypeError \<or> read_prop v k = Inr (opt_prop v k)"
  by (cases v rule: nullish.cases) simp_all

lemma not_array_case:
  "\<not> isArray v \<Longrightarrow> (case v of Some (YSeq xs) \<Rightarrow> F xs | _ \<Rightarrow> Inl TypeError) = Inl TypeError"
  by (cases v rule: isArray.cases) simp_all

lemma sim_step_callback_throws:
  assumes "\<not> isArray (opt_prop (getprop st ''parameters'') ''items'')"
  shows "sim_step_callback st k simulation = Inl TypeError"
proof -
  consider "read_prop (Some st) ''parameters'' = Inl TypeError"
    | "read_prop (Some st) ''parameters'' = Inr (getprop st ''parameters'')"
    using read_prop_cases [of "Some st" "''parameters''"] by (auto simp: opt_prop_getprop)
  then show ?thesis
  proof cases
    case 1
    then show ?thesis by (simp add: sim_step_callback_def)
  next
    case 2
    consider "read_prop (getprop st ''parameters'') ''items'' = Inl TypeError"
      | "read_prop (getprop st ''parameters'') ''items''
         = Inr (opt_prop (getprop st ''parameters'') ''items'')"
      using read_prop_cases by blast
    then show ?thesis
    proof cases
      case 1
      then show ?thesis by (simp add: sim_step_callback_def 2)
    next
      case 3: 2
      show ?thesis
        by (simp add: sim_step_callback_def 2 3 not_array_case [OF assms])
    qed
  qed
qed

lemma sim_steps_loop_throws:
  assumes "st \<in> set sts" and "\<not> isArray (opt_prop (getprop st ''parameters'') ''items'')"
  shows "forEach sim_step_callback sts 0 simulation = Inl TypeError"
  using assms(1) by (rule forEach_throws) (rule sim_step_callback_throws [OF assms(2)])

lemma sim_scenario_callback_throws:
  assumes "\<not> isArray (getprop s ''triggers'') \<or> \<not> isArray (getprop s ''steps'')
           \<or> (\<exists>sts st. getprop s ''steps'' = Some (YSeq sts) \<and> st \<in> set sts
                 \<and> \<not> isArray (opt_prop (getprop st ''parameters'') ''items''))"
  shows "sim_scenario_callback s i simulation = Inl TypeError"
proof (cases "s = YNull")
  case True
  then show ?thesis by (simp add: sim_scenario_callback_def)
next
  case s: False
  have steps: "(case getprop s ''steps'' of
                  Some (YSeq ss) \<Rightarrow> forEach sim_step_callback ss 0 simulation2
                | _ \<Rightarrow> Inl TypeError) = Inl TypeError"
    if "\<not> isArray (getprop s ''steps'')
        \<or> (\<exists>sts st. getprop s ''steps'' = Some (YSeq sts) \<and> st \<in> set sts
              \<and> \<not> isArray (opt_prop (getprop st ''parameters'') ''items''))" for simulation2
    using that
  proof
    assume "\<not> isArray (getprop s ''steps'')"
    then show ?thesis by (rule not_array_case)
  next
    assume "\<exists>sts st. getprop s ''steps'' = Some (YSeq sts) \<and> st \<in> set sts
              \<and> \<not> isArray (opt_prop (getprop st ''parameters'') ''items'')"
    then obtain sts st where "getprop s ''steps'' = Some (YSeq sts)" and "st \<in> set sts"
      and "\<not> isArray (opt_prop (getprop st ''parameters'') ''items'')" by blast
    then show ?thesis by (simp add: sim_steps_loop_throws)
  qed
  show ?thesis
  proof (cases "isArray (getprop s ''triggers'')")
    case False
    show ?thesis
      unfolding sim_scenario_callback_def read_prop_Some [OF s] sum.case Let_def
        not_array_case [OF False]
      by (simp add: bind_throws)
  next
    case True
    with assms have "\<not> isArray (getprop s ''steps'')
        \<or> (\<exists>sts st. getprop s ''steps'' = Some (YSeq sts) \<and> st \<in> set sts
              \<and> \<not> isArray (opt_prop (getprop st ''parameters'') ''items''))" by blast
    note st = steps [OF this]
    show ?thesis
      unfolding sim_scenario_callback_def read_prop_Some [OF s] sum.case Let_def st
      by (simp add: bind_throws)
  qed
qed

section \<open>Small evaluations\<close>

lemma show_nat_small:
  "show_nat 0 = ''0''" "show_nat 1 = ''1''" "show_nat 2 = ''2''" "show_nat 3 = ''3''"
  by code_simp+

section \<open>Properties of the validator, the differ and the trace formatter\<close>

subsection \<open>Exceptions in the validator and in the differ\<close>

text \<open>
  Claim C1 says that the validator and the differ never throw on a parseable value. The
  code throws a TypeError in both. In the validator, line 143 reads
  \<^verbatim>\<open>t.trigger?.type\<close> with the optional chain, and line 144 evaluates
  \<^verbatim>\<open>'value' in t.trigger\<close> without one: on a trigger entry without the key
  \<^verbatim>\<open>trigger\<close> the operand is undefined and the operator throws; the \<^verbatim>\<open>catch\<close>
  of line 153 then reports a YAML parsing error, and the messages collected so far are
  lost. In the differ, \<^verbatim>\<open>current.scenarios.forEach\<close> throws when the current document
  has no \<^verbatim>\<open>scenarios\<close>, and \<^verbatim>\<open>version.scenarios[i]\<close> throws when the other
  document has none; a note without a YAML block decodes to undefined (lines 218 to
  221) and throws as well.
\<close>

theorem validator_and_differ_throw:
  "validate (Some doc_trigger_without_trigger) = Inl TypeError
   \<and> simpleDiff (Some (YMap [(''name'', YStr ''x'')])) (Some example_previous) = Inl TypeError
   \<and> simpleDiff (Some example_current) (Some (YMap [(''name'', YStr ''x'')])) = Inl TypeError
   \<and> simpleDiff None None = Inl TypeError"
  by code_simp

theorem validator_and_differ_throw_witness:
  "validate (Some doc_trigger_without_trigger)
     \<noteq> Inr [''Scenario 0, Trigger 0: type invalid'', ''Scenario 0, Trigger 0: value missing'']
   \<and> simpleDiff (Some (YMap [(''name'', YStr ''x'')])) (Some example_previous)
     \<noteq> Inr ''No differences found.''"
  using validator_and_differ_throw by simp

subsection \<open>The trigger's value: a check of presence\<close>

text \<open>
  Claim C2 says that the validator emits \<^verbatim>\<open>Scenario i, Trigger j: value missing\<close>
  whenever the key \<^verbatim>\<open>value\<close> is absent from the trigger's mapping. The message is
  pushed to the array \<^verbatim>\<open>errors\<close>, and the array is shown only when the loop of line
  135 ends: in the document below trigger 0 of scenario 0 has no key \<^verbatim>\<open>value\<close>, the
  second scenario entry is null, the read of \<^verbatim>\<open>s.id\<close> on it throws, and no message
  is emitted.
\<close>

theorem value_missing_lost_on_null_scenario:
  "getprop doc_value_missing_then_null ''scenarios''
     = Some (YSeq [scenario_value_missing, YNull])
   \<and> getprop scenario_value_missing ''triggers''
     = Some (YSeq [YMap [(''trigger'', YMap [(''type'', YStr ''t'')])]])
   \<and> ''value'' \<notin> set (map fst [(''type'', YStr ''t'')])
   \<and> validate (Some doc_value_missing_then_null) = Inl TypeError"
  by code_simp

text \<open>
  Claim C2, amended. Let trigger \<open>j\<close> of scenario \<open>i\<close> have a mapping \<open>kvs\<close> as its
  \<^verbatim>\<open>trigger\<close>. The callback of line 142 returns normally on this trigger, and what it
  pushes contains the message \<^verbatim>\<open>Scenario i, Trigger j: value missing\<close> if and only if
  \<open>kvs\<close> has no key \<^verbatim>\<open>value\<close>; and whenever the validator returns its list, the list
  contains that message if and only if \<open>kvs\<close> has no key \<^verbatim>\<open>value\<close>. The value under
  the key plays no part: null, the empty string and 0 count as present.
\<close>

theorem value_missing_iff_key_absent:
  assumes "opt_prop data ''scenarios'' = Some (YSeq ss)"
    and "i < length ss" and "getprop (ss ! i) ''triggers'' = Some (YSeq ts)"
    and "j < length ts" and "getprop (ts ! j) ''trigger'' = Some (YMap kvs)"
  shows "(\<exists>pushed. trigger_callback i (ts ! j) j errors = Inr (errors @ pushed)
            \<and> ((''Scenario '' @ show_nat i @ '', Trigger '' @ show_nat j @ '': value missing''
                  \<in> set pushed) = (''value'' \<notin> set (map fst kvs))))
         \<and> (\<forall>result. validate data = Inr result \<longrightarrow>
              ((''Scenario '' @ show_nat i @ '', Trigger '' @ show_nat j @ '': value missing''
                  \<in> set result) = (''value'' \<notin> set (map fst kvs))))"
proof (intro conjI allI impI)
  have "ts ! j \<noteq> YNull" using assms(5) by auto
  then have ok: "trigger_entry_ok (ts ! j)" using assms(5) by (simp add: trigger_entry_ok_def)
  have "(''Scenario '' @ show_nat i @ '', Trigger '' @ show_nat j @ '': value missing''
           \<in> set (spec_trigger_errors i j (ts ! j))) = (''value'' \<notin> set (map fst kvs))"
    unfolding value_missing_in_trigger [OF refl] assms(5) by simp
  then show "\<exists>pushed. trigger_callback i (ts ! j) j errors = Inr (errors @ pushed)
            \<and> ((''Scenario '' @ show_nat i @ '', Trigger '' @ show_nat j @ '': value missing''
                  \<in> set pushed) = (''value'' \<notin> set (map fst kvs)))"
    using trigger_callback_ok [OF ok] by blast
next
  fix result
  assume "validate data = Inr result"
  then have result: "result = spec_validate ss"
    using validate_scenarios [OF assms(1)] by (simp split: if_splits)
  show "(''Scenario '' @ show_nat i @ '', Trigger '' @ show_nat j @ '': value missing''
           \<in> set result) = (''value'' \<notin> set (map fst kvs))"
    unfolding result value_missing_in_validate [OF refl]
    using assms(2-5) by simp
qed

theorem value_missing_iff_key_absent_witness:
  "validate (Some doc_with_values) = Inr [''Scenario 0, Trigger 3: value missing'']
   \<and> getprop (triggers_with_values ! 3) ''trigger'' = Some (YMap [(''type'', YStr ''t'')])
   \<and> ((''Scenario 0, Trigger 3: value missing'' \<in> set [''Scenario 0, Trigger 3: value missing''])
        = (''value'' \<notin> set (map fst [(''type'', YStr ''t'')])))
   \<and> getprop (triggers_with_values ! 0) ''trigger'' = Some (YMap [(''type'', YStr ''t''), (''value'', YNull)])
   \<and> ((''Scenario 0, Trigger 0: value missing'' \<in> set [''Scenario 0, Trigger 3: value missing''])
        = (''value'' \<notin> set (map fst [(''type'', YStr ''t''), (''value'', YNull)])))"
proof -
  have h1: "opt_prop (Some doc_with_values) ''scenarios'' = Some (YSeq [scenario_with_values])"
    by (simp add: doc_with_values_def)
  have h2: "0 < length [scenario_with_values]" by simp
  have h3: "getprop ([scenario_with_values] ! 0) ''triggers'' = Some (YSeq triggers_with_values)"
    by (simp add: scenario_with_values_def)
  have h4: "3 < length triggers_with_values" "0 < length triggers_with_values"
    by (simp_all add: triggers_with_values_def)
  have h5: "getprop (triggers_with_values ! 3) ''trigger'' = Some (YMap [(''type'', YStr ''t'')])"
    by (simp add: triggers_with_values_def)
  have h6: "getprop (triggers_with_values ! 0) ''trigger''
            = Some (YMap [(''type'', YStr ''t''), (''value'', YNull)])"
    by (simp add: triggers_with_values_def)
  have v: "validate (Some doc_with_values) = Inr [''Scenario 0, Trigger 3: value missing'']"
    by code_simp
  show ?thesis
    using value_missing_iff_key_absent [OF h1 h2 h3 h4(1) h5, of "[]"]
      value_missing_iff_key_absent [OF h1 h2 h3 h4(2) h6, of "[]"] h5 h6 v
    by (simp add: show_nat_small)
qed

subsection \<open>Scenario id and name: a check of truthiness\<close>

text \<open>
  Claim C3 says that a scenario whose \<^verbatim>\<open>id\<close> and \<^verbatim>\<open>name\<close> are present strings,
  the empty string included, produces neither error. \<^verbatim>\<open>checkField\<close> tests
  \<^verbatim>\<open>!value\<close> first, and the empty string is falsy: both errors are reported for empty
  strings.
\<close>

theorem empty_id_and_name_are_invalid:
  "validate (Some doc_empty_id_name)
   = Inr [''Scenario 0: id invalid'', ''Scenario 0: name invalid'']"
  by code_simp

text \<open>
  Claim C3, amended. Whenever the validator returns its list, the list contains
  \<^verbatim>\<open>Scenario i: id invalid\<close> if and only if the \<^verbatim>\<open>id\<close> of scenario \<open>i\<close> is absent,
  not a string, or the empty string; and the same for \<^verbatim>\<open>name\<close>.
\<close>

theorem id_and_name_invalid_iff:
  assumes "opt_prop data ''scenarios'' = Some (YSeq ss)"
    and "validate data = Inr errors" and "i < length ss"
  shows "((''Scenario '' @ show_nat i @ '': id invalid'' \<in> set errors)
            = (\<not> (\<exists>str. getprop (ss ! i) ''id'' = Some (YStr str) \<and> str \<noteq> [])))
         \<and> ((''Scenario '' @ show_nat i @ '': name invalid'' \<in> set errors)
            = (\<not> (\<exists>str. getprop (ss ! i) ''name'' = Some (YStr str) \<and> str \<noteq> [])))"
proof -
  have errors: "errors = spec_validate ss"
    using validate_scenarios [OF assms(1)] assms(2) by (simp split: if_splits)
  show ?thesis
    unfolding errors id_invalid_in_validate [OF refl] name_invalid_in_validate [OF refl]
    using assms(3) by simp
qed

theorem id_and_name_invalid_iff_witness:
  "validate (Some doc_two_scenarios)
     = Inr [''Scenario 0, Trigger 0: value missing'', ''Scenario 1: name invalid'',
            ''Scenario 1, Step 0: invalid structure'']
   \<and> getprop (two_scenarios ! 1) ''id'' = Some (YStr ''b'')
   \<and> getprop (two_scenarios ! 1) ''name'' = Some (YNum 5)
   \<and> ''Scenario 1: id invalid''
        \<notin> set [''Scenario 0, Trigger 0: value missing'', ''Scenario 1: name invalid'',
                ''Scenario 1, Step 0: invalid structure'']
   \<and> ''Scenario 1: name invalid''
        \<in> set [''Scenario 0, Trigger 0: value missing'', ''Scenario 1: name invalid'',
                ''Scenario 1, Step 0: invalid structure'']"
proof -
  have h1: "opt_prop (Some doc_two_scenarios) ''scenarios'' = Some (YSeq two_scenarios)"
    by (simp add: doc_two_scenarios_def)
  have h2: "validate (Some doc_two_scenarios)
     = Inr [''Scenario 0, Trigger 0: value missing'', ''Scenario 1: name invalid'',
            ''Scenario 1, Step 0: invalid structure'']"
    by code_simp
  have h3: "1 < length two_scenarios" by (simp add: two_scenarios_def)
  have f: "getprop (two_scenarios ! 1) ''id'' = Some (YStr ''b'')"
    "getprop (two_scenarios ! 1) ''name'' = Some (YNum 5)"
    by (simp_all add: two_scenarios_def)
  show ?thesis
    using id_and_name_invalid_iff [OF h1 h2 h3] h2 f
    by (simp add: show_nat_small)
qed

subsection \<open>The order of the validator's list\<close>

text \<open>
  Claim C4 says that the validator returns the accumulated list for every document whose
  \<^verbatim>\<open>scenarios\<close> is a sequence. The callback of line 135 reads \<^verbatim>\<open>s.id\<close> on the entry
  as it is: on a null entry the read throws, no list is returned, and the notice is that
  of a parsing error.
\<close>

theorem validate_null_scenario_throws:
  "opt_prop (Some doc_null_scenario) ''scenarios'' = Some (YSeq [YNull])
   \<and> validate (Some doc_null_scenario) = Inl TypeError"
  by code_simp

text \<open>
  Claim C4, amended. For every document whose \<^verbatim>\<open>scenarios\<close> is a sequence of entries
  on which the validator's reads succeed (no scenario, trigger or step entry is null, and
  the \<^verbatim>\<open>trigger\<close> of every trigger entry is a mapping or a sequence), the validator
  returns the list of all violations in the order of the specification: for each scenario
  in document order the id error, the name error, the trigger errors in trigger order
  and the step errors in step order.
\<close>

theorem validate_in_order:
  assumes "opt_prop data ''scenarios'' = Some (YSeq ss)"
    and "list_all scenario_entry_ok ss"
  shows "validate data = Inr (spec_validate ss)"
  using validate_scenarios [OF assms(1)] assms(2) by simp

theorem validate_in_order_witness:
  "list_all scenario_entry_ok two_scenarios
   \<and> spec_validate two_scenarios
       = [''Scenario 0, Trigger 0: value missing'', ''Scenario 1: name invalid'',
          ''Scenario 1, Step 0: invalid structure'']
   \<and> validate (Some doc_two_scenarios)
       = Inr [''Scenario 0, Trigger 0: value missing'', ''Scenario 1: name invalid'',
              ''Scenario 1, Step 0: invalid structure'']"
proof -
  have h1: "opt_prop (Some doc_two_scenarios) ''scenarios'' = Some (YSeq two_scenarios)"
    by (simp add: doc_two_scenarios_def)
  have h2: "list_all scenario_entry_ok two_scenarios" by code_simp
  have e: "spec_validate two_scenarios
       = [''Scenario 0, Trigger 0: value missing'', ''Scenario 1: name invalid'',
          ''Scenario 1, Step 0: invalid structure'']"
    by code_simp
  show ?thesis
    using validate_in_order [OF h1 h2] h2 e by simp
qed

subsection \<open>The validator without a list of scenarios\<close>



subsection \<open>A document compared with itself\<close>

text \<open>
  Claim C6 says that the differ applied to a document and itself returns the sentinel
  whenever \<^verbatim>\<open>scenarios\<close> is a sequence. The callback of line 238 reads
  \<^verbatim>\<open>s.name\<close> on the entry as it is: on a null entry the read throws and the differ
  returns nothing.
\<close>

theorem diff_null_scenario_with_itself_throws:
  "getprop doc_null_scenario ''scenarios'' = Some (YSeq [YNull])
   \<and> simpleDiff (Some doc_null_scenario) (Some doc_null_scenario) = Inl TypeError"
  by code_simp

text \<open>
  Claim C6, amended. For every document whose \<^verbatim>\<open>scenarios\<close> is a sequence in which
  no entry is null, the differ applied to the document and itself finds no change line
  and returns exactly \<^verbatim>\<open>No differences found.\<close>
\<close>

theorem diff_with_itself:
  assumes "getprop doc ''scenarios'' = Some (YSeq ss)" and "YNull \<notin> set ss"
  shows "diff_changes (Some doc) (Some doc) = Inr []
         \<and> simpleDiff (Some doc) (Some doc) = Inr ''No differences found.''"
proof -
  have "scenario_changes k (ss ! k) (other_entry ss k) = []" if "k < length ss" for k
  proof -
    from that assms(2) have "ss ! k \<noteq> YNull" by (metis nth_mem)
    then show ?thesis
      unfolding scenario_changes_Nil other_entry_in_range [OF that]
      by (simp add: or_empty_fields same_structure_refl)
  qed
  then have "concat (map (\<lambda>(i, s). scenario_changes i s (other_entry ss i)) (enumerate 0 ss)) = []"
    unfolding concat_enumerate_Nil by simp
  then have "diff_changes (Some doc) (Some doc) = Inr []"
    using diff_changes_ok [OF assms(1) assms(1) assms(2)] by simp
  then show ?thesis by (simp add: simpleDiff_def)
qed

theorem diff_with_itself_witness:
  "getprop doc_older ''scenarios'' = Some (YSeq older_scenarios)
   \<and> YNull \<notin> set older_scenarios
   \<and> diff_changes (Some doc_older) (Some doc_older) = Inr []
   \<and> simpleDiff (Some doc_older) (Some doc_older) = Inr ''No differences found.''"
proof -
  have h1: "getprop doc_older ''scenarios'' = Some (YSeq older_scenarios)"
    by (simp add: doc_older_def)
  have h2: "YNull \<notin> set older_scenarios" by (simp add: older_scenarios_def)
  show ?thesis using diff_with_itself [OF h1 h2] h1 h2 by simp
qed

subsection \<open>Fields and indices the differ does not look at\<close>

text \<open>
  Claim C7 says that the differ returns the sentinel for every pair of documents that
  agree on the three compared fields at every index of the current document. A null
  entry of the current document has none of the three fields, and so has the entry
  \<^verbatim>\<open>{}\<close> that stands for a missing entry of the previous document: the two agree,
  and the read of \<^verbatim>\<open>s.name\<close> on null (line 240) throws.
\<close>

theorem diff_agreeing_null_scenario_throws:
  "getprop doc_null_scenario ''scenarios'' = Some (YSeq [YNull])
   \<and> getprop doc_no_scenarios ''scenarios'' = Some (YSeq [])
   \<and> agree_on_fields [YNull] []
   \<and> simpleDiff (Some doc_null_scenario) (Some doc_no_scenarios) = Inl TypeError"
  by code_simp

text \<open>
  Claim C7, amended. Let the current and the previous document have sequences of
  scenarios, no entry of the current one being null. If, at every index of the current
  document, the fields \<^verbatim>\<open>name\<close>, \<^verbatim>\<open>triggers\<close> and \<^verbatim>\<open>steps\<close> of the two
  entries have the same serialised form (an absent field agreeing only with an absent
  field, and \<^verbatim>\<open>{}\<close> standing for a missing entry of the previous document), the differ
  finds no change line and returns \<^verbatim>\<open>No differences found.\<close>, whatever the other
  fields hold and however many more scenarios the previous document has.
\<close>

theorem diff_ignores_other_fields:
  assumes "getprop cur ''scenarios'' = Some (YSeq cs)"
    and "getprop prev ''scenarios'' = Some (YSeq ps)"
    and "YNull \<notin> set cs"
    and "agree_on_fields cs ps"
  shows "diff_changes (Some cur) (Some prev) = Inr []
         \<and> simpleDiff (Some cur) (Some prev) = Inr ''No differences found.''"
proof -
  have "scenario_changes k (cs ! k) (other_entry ps k) = []" if "k < length cs" for k
    unfolding scenario_changes_Nil
    using assms(4) that by (simp add: agree_on_fields_def list_all_iff)
  then have "concat (map (\<lambda>(i, s). scenario_changes i s (other_entry ps i)) (enumerate 0 cs)) = []"
    unfolding concat_enumerate_Nil by simp
  then have "diff_changes (Some cur) (Some prev) = Inr []"
    using diff_changes_ok [OF assms(1) assms(2) assms(3)] by simp
  then show ?thesis by (simp add: simpleDiff_def)
qed

theorem diff_ignores_other_fields_witness:
  "agree_on_fields newer_scenarios older_scenarios
   \<and> getprop (newer_scenarios ! 0) ''id'' \<noteq> getprop (older_scenarios ! 0) ''id''
   \<and> getprop (newer_scenarios ! 0) ''icon'' \<noteq> getprop (older_scenarios ! 0) ''icon''
   \<and> getprop (newer_scenarios ! 0) ''devices'' \<noteq> getprop (older_scenarios ! 0) ''devices''
   \<and> length newer_scenarios < length older_scenarios
   \<and> diff_changes (Some doc_newer) (Some doc_older) = Inr []
   \<and> simpleDiff (Some doc_newer) (Some doc_older) = Inr ''No differences found.''"
proof -
  have h1: "getprop doc_newer ''scenarios'' = Some (YSeq newer_scenarios)"
    by (simp add: doc_newer_def)
  have h2: "getprop doc_older ''scenarios'' = Some (YSeq older_scenarios)"
    by (simp add: doc_older_def)
  have h3: "YNull \<notin> set newer_scenarios" by (simp add: newer_scenarios_def)
  have h4: "agree_on_fields newer_scenarios older_scenarios" by code_simp
  have rest: "getprop (newer_scenarios ! 0) ''id'' \<noteq> getprop (older_scenarios ! 0) ''id''"
    "getprop (newer_scenarios ! 0) ''icon'' \<noteq> getprop (older_scenarios ! 0) ''icon''"
    "getprop (newer_scenarios ! 0) ''devices'' \<noteq> getprop (older_scenarios ! 0) ''devices''"
    "length newer_scenarios < length older_scenarios"
    by (simp_all add: newer_scenarios_def older_scenarios_def)
  show ?thesis using diff_ignores_other_fields [OF h1 h2 h3 h4] h4 rest by simp
qed

subsection \<open>The paths reported in the two directions\<close>

text \<open>
  Claim C8 says that the differ reports the same set of paths in both directions. The
  loop of line 238 runs over the indices of its first argument only: with two scenarios
  on one side and one on the other, one direction reports the path of scenario 1 and
  field \<^verbatim>\<open>name\<close>, and the other direction does not. And with one scenario on each
  side, one of them null, the direction that iterates the null entry throws at line 240
  and reports nothing, while the other direction takes \<^verbatim>\<open>{}\<close> for the null entry
  (line 239) and reports the path of scenario 0 and field \<^verbatim>\<open>name\<close>.
\<close>

theorem diff_paths_differ_in_length:
  \<open>diff_changes (Some doc_null_scenario) (Some doc_named_scenario) = Inl TypeError
   \<and> diff_changes (Some doc_named_scenario) (Some doc_null_scenario)
     = Inr [''Scenario 0.name: undefined '' @ arrow @ '' "x"'']
   \<and> reports [''Scenario 0.name: undefined '' @ arrow @ '' "x"''] 0 ''name''
   \<and> diff_changes (Some doc_two_names) (Some doc_one_name)
     = Inr [''Scenario 0.name: "Y" '' @ arrow @ '' "X"'',
            ''Scenario 1.name: undefined '' @ arrow @ '' "Z"'',
            ''Scenario 1.triggers: undefined '' @ arrow @ '' []'',
            ''Scenario 1.steps: undefined '' @ arrow @ '' []'']
   \<and> diff_changes (Some doc_one_name) (Some doc_two_names)
     = Inr [''Scenario 0.name: "X" '' @ arrow @ '' "Y"'']
   \<and> reports [''Scenario 0.name: "Y" '' @ arrow @ '' "X"'',
               ''Scenario 1.name: undefined '' @ arrow @ '' "Z"'',
               ''Scenario 1.triggers: undefined '' @ arrow @ '' []'',
               ''Scenario 1.steps: undefined '' @ arrow @ '' []''] 1 ''name''
   \<and> \<not> reports [''Scenario 0.name: "X" '' @ arrow @ '' "Y"''] 1 ''name''\<close>
  by code_simp

text \<open>
  Claim C8, amended. For every pair of documents whose \<^verbatim>\<open>scenarios\<close> are sequences
  of the same length in which no entry is null, the differ returns in both directions,
  and for every index and every compared field the path is reported in one direction
  if and only if it is reported in the other.
\<close>

theorem diff_paths_symmetric:
  assumes "getprop a ''scenarios'' = Some (YSeq as)"
    and "getprop b ''scenarios'' = Some (YSeq bs)"
    and "YNull \<notin> set as" and "YNull \<notin> set bs"
    and "length as = length bs"
  shows "\<exists>ca cb. diff_changes (Some a) (Some b) = Inr ca
                \<and> diff_changes (Some b) (Some a) = Inr cb
                \<and> (\<forall>i. \<forall>f \<in> set compared_fields. reports ca i f = reports cb i f)"
proof (intro exI conjI allI ballI)
  show "diff_changes (Some a) (Some b)
        = Inr (concat (map (\<lambda>(i, s). scenario_changes i s (other_entry bs i)) (enumerate 0 as)))"
    by (rule diff_changes_ok [OF assms(1) assms(2) assms(3)])
  show "diff_changes (Some b) (Some a)
        = Inr (concat (map (\<lambda>(i, s). scenario_changes i s (other_entry as i)) (enumerate 0 bs)))"
    by (rule diff_changes_ok [OF assms(2) assms(1) assms(4)])
  fix i f
  assume f: "f \<in> set compared_fields"
  show "reports (concat (map (\<lambda>(i, s). scenario_changes i s (other_entry bs i)) (enumerate 0 as))) i f
        = reports (concat (map (\<lambda>(i, s). scenario_changes i s (other_entry as i)) (enumerate 0 bs))) i f"
  proof (cases "i < length as")
    case False
    then show ?thesis unfolding reports_changes [OF f] using assms(5) by simp
  next
    case True
    then have ib: "i < length bs" using assms(5) by simp
    have "as ! i \<noteq> YNull" using True assms(3) by (metis nth_mem)
    moreover have "bs ! i \<noteq> YNull" using ib assms(4) by (metis nth_mem)
    ultimately show ?thesis
      unfolding reports_changes [OF f] other_entry_in_range [OF True] other_entry_in_range [OF ib]
      using True ib f by (simp add: or_empty_fields same_structure_sym)
  qed
qed

theorem diff_paths_symmetric_witness:
  \<open>diff_changes (Some example_current) (Some example_previous)
     = Inr [''Scenario 0.name: "Y" '' @ arrow @ '' "X"'']
   \<and> diff_changes (Some example_previous) (Some example_current)
     = Inr [''Scenario 0.name: "X" '' @ arrow @ '' "Y"'']
   \<and> reports [''Scenario 0.name: "Y" '' @ arrow @ '' "X"''] 0 ''name''
     = reports [''Scenario 0.name: "X" '' @ arrow @ '' "Y"''] 0 ''name''
   \<and> reports [''Scenario 0.name: "Y" '' @ arrow @ '' "X"''] 0 ''triggers''
     = reports [''Scenario 0.name: "X" '' @ arrow @ '' "Y"''] 0 ''triggers''\<close>
proof -
  let ?cs = "[YMap [(''name'', YStr ''X''), (''triggers'', YSeq [YNum 1]), (''steps'', YSeq [])]]"
  let ?ps = "[YMap [(''name'', YStr ''Y''), (''triggers'', YSeq [YNum 1]), (''steps'', YSeq [])]]"
  have h1: "getprop example_current ''scenarios'' = Some (YSeq ?cs)"
    by (simp add: example_current_def)
  have h2: "getprop example_previous ''scenarios'' = Some (YSeq ?ps)"
    by (simp add: example_previous_def)
  have h3: "YNull \<notin> set ?cs" "YNull \<notin> set ?ps" "length ?cs = length ?ps" by simp_all
  have a: \<open>diff_changes (Some example_current) (Some example_previous)
     = Inr [''Scenario 0.name: "Y" '' @ arrow @ '' "X"'']\<close> by code_simp
  have b: \<open>diff_changes (Some example_previous) (Some example_current)
     = Inr [''Scenario 0.name: "X" '' @ arrow @ '' "Y"'']\<close> by code_simp
  have f: "''name'' \<in> set compared_fields" "''triggers'' \<in> set compared_fields"
    by (simp_all add: compared_fields_def)
  from diff_paths_symmetric [OF h1 h2 h3] obtain ca cb
    where ca: "diff_changes (Some example_current) (Some example_previous) = Inr ca"
      and cb: "diff_changes (Some example_previous) (Some example_current) = Inr cb"
      and same: "\<forall>i. \<forall>f \<in> set compared_fields. reports ca i f = reports cb i f"
    by blast
  from ca a have ca': \<open>ca = [''Scenario 0.name: "Y" '' @ arrow @ '' "X"'']\<close> by simp
  from cb b have cb': \<open>cb = [''Scenario 0.name: "X" '' @ arrow @ '' "Y"'']\<close> by simp
  from same f have "reports ca 0 ''name'' = reports cb 0 ''name''"
    and "reports ca 0 ''triggers'' = reports cb 0 ''triggers''" by blast+
  then show ?thesis unfolding ca' cb' using a b by blast
qed

subsection \<open>The format of a change line\<close>

text \<open>
  Claim C9. Every line of the array \<^verbatim>\<open>changes\<close> is, for an index \<open>i\<close> of the current
  document and one of the three compared fields, the text \<^verbatim>\<open>Scenario i.field: \<close>
  followed by the serialised value of the previous document, a space, the arrow U+2192,
  a space, and the serialised value of the current document (\<^verbatim>\<open>undefined\<close> standing
  for an absent value). For the two documents of the specification's example the differ
  returns the one line \<^verbatim>\<open>Scenario 0.name: "Y" -> "X"\<close>, with that arrow.
\<close>

theorem change_line_format:
  assumes "getprop cur ''scenarios'' = Some (YSeq cs)"
    and "getprop prev ''scenarios'' = Some (YSeq ps)"
    and "diff_changes (Some cur) (Some prev) = Inr changes"
    and "line \<in> set changes"
  shows \<open>(\<exists>i < length cs. \<exists>f \<in> set compared_fields.
           line = ''Scenario '' @ show_nat i @ ''.'' @ f @ '': ''
                  @ template_str (JSON_stringify (opt_prop (other_entry ps i) f))
                  @ '' '' @ arrow @ '' ''
                  @ template_str (JSON_stringify (getprop (cs ! i) f)))
         \<and> simpleDiff (Some example_current) (Some example_previous)
           = Inr (''Scenario 0.name: "Y" '' @ arrow @ '' "X"'')\<close>
proof (rule conjI)
  have nonull: "YNull \<notin> set cs"
  proof
    assume "YNull \<in> set cs"
    then have "diff_changes (Some cur) (Some prev) = Inl TypeError"
      by (rule diff_changes_null [OF assms(1)])
    with assms(3) show False by simp
  qed
  have changes: "changes = concat (map (\<lambda>(i, s). scenario_changes i s (other_entry ps i)) (enumerate 0 cs))"
    using diff_changes_ok [OF assms(1) assms(2) nonull] assms(3) by simp
  have "\<exists>k < length cs. line \<in> set (scenario_changes (0 + k) (cs ! k) (other_entry ps (0 + k)))"
    using assms(4) unfolding changes in_concat_enumerate .
  then obtain k where k: "k < length cs"
    and "line \<in> set (scenario_changes k (cs ! k) (other_entry ps k))"
    by auto
  then obtain f where f: "f \<in> set compared_fields"
    and line: "line = change_line k f (opt_prop (other_entry ps k) f) (getprop (cs ! k) f)"
    unfolding in_scenario_changes by blast
  show "\<exists>i < length cs. \<exists>f \<in> set compared_fields.
           line = ''Scenario '' @ show_nat i @ ''.'' @ f @ '': ''
                  @ template_str (JSON_stringify (opt_prop (other_entry ps i) f))
                  @ '' '' @ arrow @ '' ''
                  @ template_str (JSON_stringify (getprop (cs ! i) f))"
  proof (intro exI [of _ k] conjI bexI [of _ f])
    show "k < length cs" by (rule k)
    show "f \<in> set compared_fields" by (rule f)
    show "line = ''Scenario '' @ show_nat k @ ''.'' @ f @ '': ''
                  @ template_str (JSON_stringify (opt_prop (other_entry ps k) f))
                  @ '' '' @ arrow @ '' ''
                  @ template_str (JSON_stringify (getprop (cs ! k) f))"
      unfolding line change_line_def by (rule refl)
  qed
next
  show \<open>simpleDiff (Some example_current) (Some example_previous)
        = Inr (''Scenario 0.name: "Y" '' @ arrow @ '' "X"'')\<close>
    by code_simp
qed

theorem change_line_format_witness:
  \<open>diff_changes (Some doc_two_names) (Some doc_one_name)
     = Inr [''Scenario 0.name: "Y" '' @ arrow @ '' "X"'',
            ''Scenario 1.name: undefined '' @ arrow @ '' "Z"'',
            ''Scenario 1.triggers: undefined '' @ arrow @ '' []'',
            ''Scenario 1.steps: undefined '' @ arrow @ '' []'']
   \<and> (\<exists>i < 2. \<exists>f \<in> set compared_fields.
          ''Scenario 1.triggers: undefined '' @ arrow @ '' []''
            = ''Scenario '' @ show_nat i @ ''.'' @ f @ '': ''
              @ template_str (JSON_stringify (opt_prop (other_entry
                  [YMap [(''name'', YStr ''Y''), (''triggers'', YSeq []), (''steps'', YSeq [])]] i) f))
              @ '' '' @ arrow @ '' ''
              @ template_str (JSON_stringify (getprop
                  ([YMap [(''name'', YStr ''X''), (''triggers'', YSeq []), (''steps'', YSeq [])],
                    YMap [(''name'', YStr ''Z''), (''triggers'', YSeq []), (''steps'', YSeq [])]] ! i) f)))
   \<and> simpleDiff (Some example_current) (Some example_previous)
     = Inr (''Scenario 0.name: "Y" '' @ arrow @ '' "X"'')\<close>
proof -
  let ?cs = "[YMap [(''name'', YStr ''X''), (''triggers'', YSeq []), (''steps'', YSeq [])],
              YMap [(''name'', YStr ''Z''), (''triggers'', YSeq []), (''steps'', YSeq [])]]"
  let ?ps = "[YMap [(''name'', YStr ''Y''), (''triggers'', YSeq []), (''steps'', YSeq [])]]"
  have h1: "getprop doc_two_names ''scenarios'' = Some (YSeq ?cs)"
    by (simp add: doc_two_names_def)
  have h2: "getprop doc_one_name ''scenarios'' = Some (YSeq ?ps)"
    by (simp add: doc_one_name_def)
  have h3: \<open>diff_changes (Some doc_two_names) (Some doc_one_name)
     = Inr [''Scenario 0.name: "Y" '' @ arrow @ '' "X"'',
            ''Scenario 1.name: undefined '' @ arrow @ '' "Z"'',
            ''Scenario 1.triggers: undefined '' @ arrow @ '' []'',
            ''Scenario 1.steps: undefined '' @ arrow @ '' []'']\<close>
    by code_simp
  have h4: \<open>''Scenario 1.triggers: undefined '' @ arrow @ '' []''
     \<in> set [''Scenario 0.name: "Y" '' @ arrow @ '' "X"'',
            ''Scenario 1.name: undefined '' @ arrow @ '' "Z"'',
            ''Scenario 1.triggers: undefined '' @ arrow @ '' []'',
            ''Scenario 1.steps: undefined '' @ arrow @ '' []'']\<close>
    by simp
  note t = change_line_format [OF h1 h2 h3 h4]
  have two: "length ?cs = 2" by simp
  show ?thesis using t h3 unfolding two by blast
qed

subsection \<open>The trace formatter is partial\<close>

text \<open>
  Claim C10. The trace formatter checks only that \<^verbatim>\<open>scenarios\<close> has a truthy length.
  Whenever a scenario of a document has a \<^verbatim>\<open>triggers\<close> or a \<^verbatim>\<open>steps\<close> that is not a
  sequence, or a step whose \<^verbatim>\<open>parameters.items\<close> is not a sequence, the formatter
  throws a TypeError and shows no trace. A scenario without the key \<^verbatim>\<open>triggers\<close> is
  such a document: the formatter throws on it, and the validator returns a message.
\<close>

theorem simulate_throws:
  assumes "getprop doc ''scenarios'' = Some (YSeq ss)" and "s \<in> set ss"
    and "\<not> isArray (getprop s ''triggers'') \<or> \<not> isArray (getprop s ''steps'')
         \<or> (\<exists>sts st. getprop s ''steps'' = Some (YSeq sts) \<and> st \<in> set sts
               \<and> \<not> isArray (opt_prop (getprop st ''parameters'') ''items''))"
  shows "simulate (Some doc) = Inl TypeError
         \<and> simulate (Some doc_without_triggers) = Inl TypeError
         \<and> validate (Some doc_without_triggers)
           = Inr [''Scenario 0: triggers missing or not an array'']"
proof (intro conjI)
  have doc: "doc \<noteq> YNull" using assms(1) by auto
  have "ss \<noteq> []" using assms(2) by auto
  then have len: "truthy (opt_prop (opt_prop (Some doc) ''scenarios'') ''length'')"
    by (simp add: opt_prop_getprop assms(1))
  have loop: "forEach sim_scenario_callback ss 0 [] = Inl TypeError"
    using assms(2) by (rule forEach_throws) (rule sim_scenario_callback_throws [OF assms(3)])
  show "simulate (Some doc) = Inl TypeError"
    by (simp add: simulate_def len read_prop_Some [OF doc] assms(1) loop)
next
  show "simulate (Some doc_without_triggers) = Inl TypeError" by code_simp
next
  show "validate (Some doc_without_triggers)
        = Inr [''Scenario 0: triggers missing or not an array'']"
    by code_simp
qed

theorem simulate_throws_witness:
  "getprop doc_step_without_parameters ''scenarios'' = Some (YSeq [scenario_step_without_parameters])
   \<and> getprop scenario_step_without_parameters ''steps'' = Some (YSeq [YMap [(''type'', YStr ''s'')]])
   \<and> \<not> isArray (opt_prop (getprop (YMap [(''type'', YStr ''s'')]) ''parameters'') ''items'')
   \<and> simulate (Some doc_step_without_parameters) = Inl TypeError
   \<and> validate (Some doc_step_without_parameters) = Inr [''Scenario 0, Step 0: invalid structure'']"
proof -
  have h1: "getprop doc_step_without_parameters ''scenarios''
            = Some (YSeq [scenario_step_without_parameters])"
    by (simp add: doc_step_without_parameters_def)
  have h2: "scenario_step_without_parameters \<in> set [scenario_step_without_parameters]" by simp
  have s: "getprop scenario_step_without_parameters ''steps'' = Some (YSeq [YMap [(''type'', YStr ''s'')]])"
    by (simp add: scenario_step_without_parameters_def)
  have i: "\<not> isArray (opt_prop (getprop (YMap [(''type'', YStr ''s'')]) ''parameters'') ''items'')"
    by simp
  have h3: "\<not> isArray (getprop scenario_step_without_parameters ''triggers'')
            \<or> \<not> isArray (getprop scenario_step_without_parameters ''steps'')
            \<or> (\<exists>sts st. getprop scenario_step_without_parameters ''steps'' = Some (YSeq sts)
                  \<and> st \<in> set sts
                  \<and> \<not> isArray (opt_prop (getprop st ''parameters'') ''items''))"
    using s i by auto
  have v: "validate (Some doc_step_without_parameters) = Inr [''Scenario 0, Step 0: invalid structure'']"
    by code_simp
  show ?thesis using simulate_throws [OF h1 h2 h3] h1 s i v by simp
qed

end
